theory Spec2Isabelle
  imports Main
begin

unbundle bit_operations_syntax

section \<open>Go strings, bytes and runes\<close>

text \<open>
  A Go string is a sequence of bytes. It is modelled as a \<open>string\<close> (a \<open>char list\<close>), a
  \<open>char\<close> being one byte; \<open>of_char\<close> reads the byte as a number and \<open>char_of\<close> is Go's
  conversion \<^verbatim>\<open>byte(x)\<close>, which keeps the low eight bits. A rune is an \<^verbatim>\<open>int32\<close>; the
  runes met here lie between \<open>-1\<close> and \<open>0x10FFFF\<close>, so a rune is an \<open>int\<close>.

  \<^verbatim>\<open>for i, r := range text\<close>, \<^verbatim>\<open>strings.Builder.WriteRune\<close>, \<^verbatim>\<open>strings.Map\<close> and
  \<^verbatim>\<open>strings.TrimSpace\<close> belong to the Go language and its standard library. They decide
  what \<^verbatim>\<open>processColorCodes\<close> computes on a byte string, so they are embedded here from
  the packages \<^verbatim>\<open>unicode/utf8\<close>, \<^verbatim>\<open>unicode\<close> and \<^verbatim>\<open>strings\<close>.
\<close>

type_synonym rune = int

abbreviation RuneError :: rune where "RuneError \<equiv> 0xFFFD"

abbreviation rune_of_byte :: "char \<Rightarrow> rune" where
  "rune_of_byte c \<equiv> int (of_char c)"

subsection \<open>unicode/utf8\<close>

text \<open>
  The table \<^verbatim>\<open>first\<close> of \<^verbatim>\<open>unicode/utf8\<close> with its \<^verbatim>\<open>acceptRanges\<close>: what the first
  byte of a sequence announces. \<open>Lead sz lo hi\<close> is a sequence of \<open>sz\<close> bytes whose second
  byte must lie in \<open>lo..hi\<close>.
\<close>

datatype lead = ASCII | Illegal | Lead nat nat nat

definition first :: "nat \<Rightarrow> lead" where
  "first b =
     (if b < 0x80 then ASCII
      else if b < 0xC2 then Illegal
      else if b < 0xE0 then Lead 2 0x80 0xBF
      else if b = 0xE0 then Lead 3 0xA0 0xBF
      else if b < 0xED then Lead 3 0x80 0xBF
      else if b = 0xED then Lead 3 0x80 0x9F
      else if b < 0xF0 then Lead 3 0x80 0xBF
      else if b = 0xF0 then Lead 4 0x90 0xBF
      else if b < 0xF4 then Lead 4 0x80 0xBF
      else if b = 0xF4 then Lead 4 0x80 0x8F
      else Illegal)"

text \<open>
  \<^verbatim>\<open>utf8.DecodeRuneInString\<close>: the first rune of \<open>s\<close> and its width in bytes;
  \<open>(RuneError, 0)\<close> on the empty string and \<open>(RuneError, 1)\<close> on an invalid encoding.
  The masks are \<^verbatim>\<open>mask2 = 0x1F\<close>, \<^verbatim>\<open>mask3 = 0x0F\<close>, \<^verbatim>\<open>mask4 = 0x07\<close>, \<^verbatim>\<open>maskx = 0x3F\<close>,
  and continuation bytes lie in \<^verbatim>\<open>locb = 0x80\<close> .. \<^verbatim>\<open>hicb = 0xBF\<close>.
\<close>

definition DecodeRuneInString :: "string \<Rightarrow> rune \<times> nat" where
  "DecodeRuneInString s =
     (case s of
        [] \<Rightarrow> (RuneError, 0)
      | c0 # _ \<Rightarrow>
          (let s0 = (of_char c0 :: nat) in
           case first s0 of
             ASCII \<Rightarrow> (int s0, 1)
           | Illegal \<Rightarrow> (RuneError, 1)
           | Lead sz lo hi \<Rightarrow>
               if length s < sz then (RuneError, 1)
               else let s1 = (of_char (s ! 1) :: nat) in
                 if s1 < lo \<or> hi < s1 then (RuneError, 1)
                 else if sz \<le> 2 then
                   (int (push_bit 6 (s0 AND 0x1F) OR (s1 AND 0x3F)), 2)
                 else let s2 = (of_char (s ! 2) :: nat) in
                   if s2 < 0x80 \<or> 0xBF < s2 then (RuneError, 1)
                   else if sz \<le> 3 then
                     (int (push_bit 12 (s0 AND 0x0F) OR push_bit 6 (s1 AND 0x3F)
                            OR (s2 AND 0x3F)), 3)
                   else let s3 = (of_char (s ! 3) :: nat) in
                     if s3 < 0x80 \<or> 0xBF < s3 then (RuneError, 1)
                     else
                       (int (push_bit 18 (s0 AND 0x07) OR push_bit 12 (s1 AND 0x3F)
                              OR push_bit 6 (s2 AND 0x3F) OR (s3 AND 0x3F)), 4)))"

text \<open>
  \<^verbatim>\<open>utf8.AppendRune\<close> on an empty buffer, which is what \<^verbatim>\<open>Builder.WriteRune\<close> appends.
  \<open>i\<close> is \<^verbatim>\<open>uint32(r)\<close>; a rune out of range or a surrogate is written as \<open>RuneError\<close>.
  The marker bits are \<^verbatim>\<open>t2 = 0xC0\<close>, \<^verbatim>\<open>t3 = 0xE0\<close>, \<^verbatim>\<open>t4 = 0xF0\<close>, \<^verbatim>\<open>tx = 0x80\<close>.
\<close>

definition enc3 :: "rune \<Rightarrow> string" where
  "enc3 r = [char_of (0xE0 OR drop_bit 12 r),
             char_of (0x80 OR (drop_bit 6 r AND 0x3F)),
             char_of (0x80 OR (r AND 0x3F))]"

definition EncodeRune :: "rune \<Rightarrow> string" where
  "EncodeRune r =
     (let i = r mod 2 ^ 32 in
      if i \<le> 0x7F then [char_of r]
      else if i \<le> 0x7FF then
        [char_of (0xC0 OR drop_bit 6 r), char_of (0x80 OR (r AND 0x3F))]
      else if i > 0x10FFFF \<or> (0xD800 \<le> i \<and> i \<le> 0xDFFF) then enc3 RuneError
      else if i \<le> 0xFFFF then enc3 r
      else
        [char_of (0xF0 OR drop_bit 18 r),
         char_of (0x80 OR (drop_bit 12 r AND 0x3F)),
         char_of (0x80 OR (drop_bit 6 r AND 0x3F)),
         char_of (0x80 OR (r AND 0x3F))])"

lemma DecodeRuneInString_width:
  "s \<noteq> [] \<Longrightarrow> 1 \<le> snd (DecodeRuneInString s) \<and> snd (DecodeRuneInString s) \<le> length s"
  by (cases s)
     (auto simp: DecodeRuneInString_def Let_def first_def Suc_le_eq split: lead.splits if_splits)

text \<open>
  \<^verbatim>\<open>utf8.RuneStart\<close> and \<^verbatim>\<open>utf8.DecodeLastRuneInString\<close>: the last rune of \<open>s\<close> and
  its width. The library walks back from the last byte, at most \<^verbatim>\<open>UTFMax = 4\<close> bytes, to a
  byte that can start a rune, and decodes forwards from there.
\<close>

definition RuneStart :: "nat \<Rightarrow> bool" where
  "RuneStart b = (b AND 0xC0 \<noteq> 0x80)"

function backToRuneStart :: "string \<Rightarrow> int \<Rightarrow> int \<Rightarrow> int" where
  "backToRuneStart s lim start =
     (if lim \<le> start
      then if RuneStart (of_char (s ! nat start)) then start
           else backToRuneStart s lim (start - 1)
      else start)"
  by pat_completeness auto
termination
  by (relation "measure (\<lambda>(s, lim, start). nat (start - lim + 1))") auto

declare backToRuneStart.simps [simp del]

definition DecodeLastRuneInString :: "string \<Rightarrow> rune \<times> nat" where
  "DecodeLastRuneInString s =
     (let stop = int (length s) in
      if stop = 0 then (RuneError, 0)
      else let r = (of_char (s ! nat (stop - 1)) :: nat) in
        if r < 0x80 then (int r, 1)
        else let lim = (if stop - 4 < 0 then 0 else stop - 4);
                 start0 = backToRuneStart s lim (stop - 2);
                 start = (if start0 < 0 then 0 else start0);
                 d = DecodeRuneInString (drop (nat start) s)
             in if start + int (snd d) \<noteq> stop then (RuneError, 1) else d)"

text \<open>
  \<^verbatim>\<open>for i, r := range s\<close>: the pairs (byte index, rune) the loop sees, from byte \<open>i\<close> on.
  An invalid byte is seen as \<open>RuneError\<close> and the loop moves on by one byte.
\<close>

function rangeString :: "string \<Rightarrow> nat \<Rightarrow> (nat \<times> rune) list" where
  "rangeString s i =
     (if i < length s
      then (i, fst (DecodeRuneInString (drop i s)))
             # rangeString s (i + snd (DecodeRuneInString (drop i s)))
      else [])"
  by pat_completeness auto
termination
proof (relation "measure (\<lambda>(s, i). length s - i)")
  show "wf (measure (\<lambda>(s, i). length s - i))" by simp
next
  fix s :: string and i :: nat
  assume "i < length s"
  then have "drop i s \<noteq> []" by simp
  from DecodeRuneInString_width [OF this] \<open>i < length s\<close>
  show "((s, i + snd (DecodeRuneInString (drop i s))), (s, i))
          \<in> measure (\<lambda>(s, i). length s - i)"
    by simp linarith
qed

declare rangeString.simps [simp del]

section \<open>The colour-code normalizer\<close>

abbreviation sentinel :: rune where "sentinel \<equiv> 0xA7"

definition esc :: "string \<Rightarrow> string" where
  "esc s = CHR 0x1B # s"

text \<open>The map \<^verbatim>\<open>colorMap\<close> of \<^verbatim>\<open>processColorCodes\<close>, keyed by rune.\<close>

definition colorMap :: "rune \<rightharpoonup> string" where
  "colorMap = map_of
     [(rune_of_byte CHR ''0'', esc ''[30m''),
      (rune_of_byte CHR ''1'', esc ''[34m''),
      (rune_of_byte CHR ''2'', esc ''[32m''),
      (rune_of_byte CHR ''3'', esc ''[36m''),
      (rune_of_byte CHR ''4'', esc ''[31m''),
      (rune_of_byte CHR ''5'', esc ''[35m''),
      (rune_of_byte CHR ''6'', esc ''[33m''),
      (rune_of_byte CHR ''7'', esc ''[37m''),
      (rune_of_byte CHR ''8'', esc ''[90m''),
      (rune_of_byte CHR ''9'', esc ''[94m''),
      (rune_of_byte CHR ''a'', esc ''[92m''),
      (rune_of_byte CHR ''b'', esc ''[96m''),
      (rune_of_byte CHR ''c'', esc ''[91m''),
      (rune_of_byte CHR ''d'', esc ''[95m''),
      (rune_of_byte CHR ''e'', esc ''[93m''),
      (rune_of_byte CHR ''f'', esc ''[97m''),
      (rune_of_byte CHR ''r'', esc ''[0m'')]"

text \<open>
  \<^verbatim>\<open>strings.Map(mapping, s)\<close>: every rune of \<open>s\<close>, as \<^verbatim>\<open>range\<close> sees it, is replaced by
  the encoding of its image, and dropped when the image is negative. (The library copies
  the unchanged prefix of \<open>s\<close> as it is and starts to re-encode at the first rune that
  changes or is invalid, which gives the same bytes.)
\<close>

definition strings_Map :: "(rune \<Rightarrow> rune) \<Rightarrow> string \<Rightarrow> string" where
  "strings_Map mapping s =
     concat (map (\<lambda>(i, c). let r = mapping c in if 0 \<le> r then EncodeRune r else [])
                 (rangeString s 0))"

text \<open>
  One round of the loop of \<^verbatim>\<open>processColorCodes\<close> in its colouring branch, on the
  variables \<open>(skip, result)\<close>. \<^verbatim>\<open>text[i+1]\<close> is the byte at index \<open>i + 1\<close>.
\<close>

definition colorStep :: "string \<Rightarrow> bool \<times> string \<Rightarrow> nat \<times> rune \<Rightarrow> bool \<times> string" where
  "colorStep text st ir =
     (case st of (skip, result) \<Rightarrow>
      case ir of (i, r) \<Rightarrow>
        if skip then (False, result)
        else if r = sentinel \<and> i + 1 < length text then
          (case colorMap (rune_of_byte (text ! (i + 1))) of
             Some color \<Rightarrow> (True, result @ color)
           | None \<Rightarrow> (False, result @ EncodeRune r))
        else (False, result @ EncodeRune r))"

definition processColorCodes :: "string \<Rightarrow> bool \<Rightarrow> string" where
  "processColorCodes text stripColors =
     (if stripColors
      then strings_Map (\<lambda>r. if r = sentinel then - 1 else r) text
      else snd (foldl (colorStep text) (False, []) (rangeString text 0)) @ esc ''[0m'')"


section \<open>Trimming white space\<close>

text \<open>
  \<^verbatim>\<open>unicode.IsSpace\<close>: the Latin-1 spaces \<^verbatim>\<open>'\t', '\n', '\v', '\f', '\r', ' '\<close>, U+0085 and
  U+00A0, and beyond Latin-1 the table \<^verbatim>\<open>White_Space\<close>.
\<close>

definition IsSpace :: "rune \<Rightarrow> bool" where
  "IsSpace r =
     (r = 0x09 \<or> r = 0x0A \<or> r = 0x0B \<or> r = 0x0C \<or> r = 0x0D \<or> r = 0x20
      \<or> r = 0x85 \<or> r = 0xA0 \<or> r = 0x1680 \<or> (0x2000 \<le> r \<and> r \<le> 0x200A)
      \<or> r = 0x2028 \<or> r = 0x2029 \<or> r = 0x202F \<or> r = 0x205F \<or> r = 0x3000)"

text \<open>
  \<^verbatim>\<open>strings.indexFunc\<close> and \<^verbatim>\<open>strings.lastIndexFunc\<close>: the byte index of the first (last)
  rune \<open>r\<close> with \<open>f r = truth\<close>, or \<open>-1\<close>.
\<close>

definition indexFunc :: "string \<Rightarrow> (rune \<Rightarrow> bool) \<Rightarrow> bool \<Rightarrow> int" where
  "indexFunc s f truth =
     (case find (\<lambda>(i, r). f r = truth) (rangeString s 0) of
        Some (i, r) \<Rightarrow> int i
      | None \<Rightarrow> - 1)"

lemma DecodeLastRuneInString_width:
  "s \<noteq> [] \<Longrightarrow> 1 \<le> snd (DecodeLastRuneInString s)"
proof -
  assume ne: "s \<noteq> []"
  have walk: "backToRuneStart s lim start \<le> start" for lim start
    by (induction s lim start rule: backToRuneStart.induct)
       (subst backToRuneStart.simps, auto)
  let ?stop = "int (length s)"
  let ?lim = "if ?stop - 4 < 0 then 0 else ?stop - 4"
  let ?start0 = "backToRuneStart s ?lim (?stop - 2)"
  let ?start = "if ?start0 < 0 then 0 else ?start0"
  from ne have "0 < ?stop" by simp
  with walk [of ?lim "?stop - 2"] have "?start < ?stop" by auto
  then have "?start + int (snd (DecodeRuneInString (drop (nat ?start) s))) = ?stop
      \<Longrightarrow> 1 \<le> snd (DecodeRuneInString (drop (nat ?start) s))"
    by linarith
  with ne show ?thesis
    by (auto simp: DecodeLastRuneInString_def Let_def)
qed

text \<open>
  The loop of \<^verbatim>\<open>lastIndexFunc\<close> runs on \<open>i\<close> from \<open>len(s)\<close> down and reads \<^verbatim>\<open>s[0:i]\<close> only:
  the recursion is on that prefix, and \<open>i\<close> is its length.
\<close>

function lastIndexFunc :: "string \<Rightarrow> (rune \<Rightarrow> bool) \<Rightarrow> bool \<Rightarrow> int" where
  "lastIndexFunc s f truth =
     (if 0 < length s
      then if f (fst (DecodeLastRuneInString s)) = truth
           then int (length s) - int (snd (DecodeLastRuneInString s))
           else lastIndexFunc (take (length s - snd (DecodeLastRuneInString s)) s) f truth
      else - 1)"
  by pat_completeness auto
termination
proof (relation "measure (\<lambda>(s, f, truth). length s)")
  show "wf (measure (\<lambda>(s, f, truth). length s))" by simp
next
  fix s :: string and f :: "rune \<Rightarrow> bool" and truth :: bool
  assume "0 < length s"
  then have "s \<noteq> []" by simp
  from DecodeLastRuneInString_width [OF this] \<open>0 < length s\<close>
  show "((take (length s - snd (DecodeLastRuneInString s)) s, f, truth), (s, f, truth))
          \<in> measure (\<lambda>(s, f, truth). length s)"
    by simp
qed

declare lastIndexFunc.simps [simp del]

text \<open>
  \<^verbatim>\<open>strings.TrimLeftFunc\<close>, \<^verbatim>\<open>strings.TrimRightFunc\<close>, \<^verbatim>\<open>strings.TrimFunc\<close>, and
  \<^verbatim>\<open>strings.TrimSpace\<close>, which removes the leading and trailing white space that
  \<^verbatim>\<open>unicode.IsSpace\<close> defines. (The library first skips ASCII spaces byte by byte and
  hands the rest to \<^verbatim>\<open>TrimFunc\<close>; the result is that of \<^verbatim>\<open>TrimFunc\<close> on the whole string.)
\<close>

definition TrimLeftFunc :: "string \<Rightarrow> (rune \<Rightarrow> bool) \<Rightarrow> string" where
  "TrimLeftFunc s f =
     (let i = indexFunc s f False in
      if i = - 1 then [] else drop (nat i) s)"

definition TrimRightFunc :: "string \<Rightarrow> (rune \<Rightarrow> bool) \<Rightarrow> string" where
  "TrimRightFunc s f =
     (let i = lastIndexFunc s f False in
      if 0 \<le> i \<and> 0x80 \<le> (of_char (s ! nat i) :: nat)
      then take (nat i + snd (DecodeRuneInString (drop (nat i) s))) s
      else take (nat (i + 1)) s)"

definition TrimFunc :: "string \<Rightarrow> (rune \<Rightarrow> bool) \<Rightarrow> string" where
  "TrimFunc s f = TrimRightFunc (TrimLeftFunc s f) f"

definition TrimSpace :: "string \<Rightarrow> string" where
  "TrimSpace s = TrimFunc s IsSpace"

section \<open>Errors, sessions and the collaborators\<close>

text \<open>
  An error value. \<open>Foreign m\<close> is an error made by a collaborator (a protocol package,
  the logger, the config loader), with its message \<open>m\<close>; \<open>Wrapped tag e\<close> is
  \<^verbatim>\<open>fmt.Errorf("tag: %w", e)\<close>. Calling a method of the nil \<^verbatim>\<open>client\<close> panics;
  the panic unwinds through every caller like an error that nobody handles, and is the
  value \<open>NilClientPanic\<close>.
\<close>

datatype err =
    ErrEmptyAddress
  | ErrEmptyPassword
  | ErrCommandEmpty
  | Foreign string
  | Wrapped string err
  | NilClientPanic

text \<open>The method \<^verbatim>\<open>Error()\<close>: the message that \<^verbatim>\<open>fmt.Fprintln(w, err)\<close> prints.\<close>

fun errorString :: "err \<Rightarrow> string" where
  "errorString ErrEmptyAddress = ''address is not set: to set address add -a host:port''"
| "errorString ErrEmptyPassword = ''password is not set: to set password add -p password''"
| "errorString ErrCommandEmpty = ''command is not set''"
| "errorString (Foreign m) = m"
| "errorString (Wrapped tag e) = tag @ '': '' @ errorString e"
| "errorString NilClientPanic = ''invalid memory address or nil pointer dereference''"

definition CommandQuit :: string where
  "CommandQuit = '':q''"

definition CommandsResponseSeparator :: string where
  "CommandsResponseSeparator = ''--------''"

text \<open>
  \<^verbatim>\<open>config.Session\<close>, with the fields the executor reads. \<open>Timeout\<close> is a
  \<^verbatim>\<open>time.Duration\<close>, a number of nanoseconds.
\<close>

record Session =
  Address :: string
  Password :: string
  Type :: string
  Log :: string
  SkipErrors :: bool
  Timeout :: int
  Variables :: bool

text \<open>
  The constants of the package \<^verbatim>\<open>config\<close> that the executor names. The package is not
  among the sources, so their values are parameters of the model.
\<close>

record config_consts =
  ProtocolRCON :: string
  ProtocolWebRCON :: string
  ProtocolTELNET :: string
  DefaultConfigEnv :: string

text \<open>
  What the executor does to the world outside, in the order it does it: the connects of
  the three protocol packages, the commands sent on the connection, its close, every
  write to the output stream \<^verbatim>\<open>w\<close>, and the calls of the logger. The handle
  \<^verbatim>\<open>executor.client\<close> holds at most one connection; it is \<open>None\<close> for \<^verbatim>\<open>nil\<close> and
  otherwise names the package that made it.
\<close>

datatype provider = RCON | WebRCON | TELNET

datatype event =
    Connect provider string string int
  | Send string
  | CloseConn
  | Write string
  | LogWrite string string string string
  | TelnetInteractive string string

record executor =
  client :: "provider option"
  trace :: "event list"

text \<open>The commands sent so far, oldest first.\<close>

fun sent :: "event list \<Rightarrow> string list" where
  "sent [] = []"
| "sent (Send c # es) = c # sent es"
| "sent (e # es) = sent es"

text \<open>
  The collaborators, which are not among the sources: what they answer is a parameter
  of the model, and may depend on everything that happened before.
  \<^item> \<open>dial_result\<close>: the error of \<^verbatim>\<open>rcon.Dial\<close>, \<^verbatim>\<open>websocket.Dial\<close> or \<^verbatim>\<open>telnet.Dial\<close>;
  \<^item> \<open>exec_result\<close>: what \<^verbatim>\<open>client.Execute(command)\<close> returns, given the commands sent
    before it: a response and an error, either of which may be empty;
  \<^item> \<open>log_result\<close>: the error of \<^verbatim>\<open>logger.Write(log, address, command, result)\<close>;
  \<^item> \<open>telnet_result\<close>: the error of \<^verbatim>\<open>telnet.DialInteractive\<close>;
  \<^item> \<open>NewConfig\<close>: \<^verbatim>\<open>config.NewConfig(path)\<close>, an error or the map from environment
    names to sessions;
  \<^item> \<open>Fscanln\<close>: \<^verbatim>\<open>fmt.Fscanln(r, &field)\<close> on the input that is left: the token it
    stores (\<open>None\<close> when it stores nothing) and the input it leaves;
  \<^item> \<open>quoted\<close>: the verb \<^verbatim>\<open>%q\<close> of \<^verbatim>\<open>fmt\<close>.
\<close>

record world =
  dial_result :: "event list \<Rightarrow> provider \<Rightarrow> string \<Rightarrow> string \<Rightarrow> int \<Rightarrow> err option"
  exec_result :: "string list \<Rightarrow> string \<Rightarrow> string \<times> err option"
  log_result :: "event list \<Rightarrow> string \<Rightarrow> string \<Rightarrow> string \<Rightarrow> string \<Rightarrow> err option"
  telnet_result :: "event list \<Rightarrow> string \<Rightarrow> string \<Rightarrow> err option"
  NewConfig :: "string \<Rightarrow> err + (string \<rightharpoonup> Session)"
  Fscanln :: "string list \<Rightarrow> string option \<times> string list"
  quoted :: "string \<Rightarrow> string"

text \<open>
  \<^verbatim>\<open>fmt.Fprint(w, s)\<close> and \<^verbatim>\<open>fmt.Fprintln(w, s)\<close>: one write to \<^verbatim>\<open>w\<close>, the second with a
  newline after \<open>s\<close>. The executor drops what they return.
\<close>

definition Fprint :: "string \<Rightarrow> executor \<Rightarrow> executor" where
  "Fprint s ex = ex\<lparr>trace := trace ex @ [Write s]\<rparr>"

definition Fprintln :: "string \<Rightarrow> executor \<Rightarrow> executor" where
  "Fprintln s ex = Fprint (s @ [CHR 0x0A]) ex"

section \<open>The executor\<close>

subsection \<open>NewSession\<close>

text \<open>The values of the flags, as \<^verbatim>\<open>c.String\<close>, \<^verbatim>\<open>c.Bool\<close> and \<^verbatim>\<open>c.Duration\<close> give them.\<close>

record flags =
  flag_address :: string
  flag_password :: string
  flag_type :: string
  flag_log :: string
  flag_skip :: bool
  flag_timeout :: int
  flag_variables :: bool
  flag_config :: string
  flag_env :: string

text \<open>The zero value of \<^verbatim>\<open>config.Session\<close>, which a Go map gives for a key it lacks.\<close>

definition zeroSession :: Session where
  "zeroSession = \<lparr>Address = [], Password = [], Type = [], Log = [],
                   SkipErrors = False, Timeout = 0, Variables = False\<rparr>"

definition lookupEnv :: "(string \<rightharpoonup> Session) \<Rightarrow> string \<Rightarrow> Session" where
  "lookupEnv cfg env = (case cfg env of None \<Rightarrow> zeroSession | Some s \<Rightarrow> s)"

definition NewSession :: "world \<Rightarrow> config_consts \<Rightarrow> flags \<Rightarrow> err option \<times> Session" where
  "NewSession W K c =
     (let ses = \<lparr>Address = flag_address c, Password = flag_password c, Type = flag_type c,
                 Log = flag_log c, SkipErrors = flag_skip c, Timeout = flag_timeout c,
                 Variables = flag_variables c\<rparr>
      in if Address ses \<noteq> [] \<and> Password ses \<noteq> [] then (None, ses)
         else case NewConfig W (flag_config c) of
           Inl e \<Rightarrow> (Some (Wrapped ''config'' e), ses)
         | Inr cfg \<Rightarrow>
             let env = (if flag_env c = [] then DefaultConfigEnv K else flag_env c);
                 ses1 = (if Address ses = [] then ses\<lparr>Address := Address (lookupEnv cfg env)\<rparr>
                         else ses);
                 ses2 = (if Password ses1 = []
                         then ses1\<lparr>Password := Password (lookupEnv cfg env)\<rparr> else ses1);
                 ses3 = (if Log ses2 = [] then ses2\<lparr>Log := Log (lookupEnv cfg env)\<rparr>
                         else ses2);
                 ses4 = (if Type ses3 = [] then ses3\<lparr>Type := Type (lookupEnv cfg env)\<rparr>
                         else ses3)
             in (None, ses4))"

subsection \<open>Dial\<close>

text \<open>
  The \<^verbatim>\<open>switch ses.Type\<close> of \<^verbatim>\<open>Dial\<close>: the package whose \<^verbatim>\<open>Dial\<close> is called.
\<close>

definition dialer :: "config_consts \<Rightarrow> Session \<Rightarrow> provider" where
  "dialer K ses =
     (if Type ses = ProtocolTELNET K then TELNET
      else if Type ses = ProtocolWebRCON K then WebRCON
      else RCON)"

definition Dial :: "world \<Rightarrow> config_consts \<Rightarrow> Session \<Rightarrow> executor \<Rightarrow> err option \<times> executor" where
  "Dial W K ses ex =
     (case client ex of
        Some c \<Rightarrow> (None, ex)
      | None \<Rightarrow>
          let p = dialer K ses;
              r = dial_result W (trace ex) p (Address ses) (Password ses) (Timeout ses);
              ex1 = ex\<lparr>trace := trace ex @ [Connect p (Address ses) (Password ses) (Timeout ses)]\<rparr>
          in (case r of
                Some e \<Rightarrow> (Some (Wrapped ''auth'' e), ex1\<lparr>client := None\<rparr>)
              | None \<Rightarrow> (None, ex1\<lparr>client := Some p\<rparr>)))"

subsection \<open>execute: one command\<close>

text \<open>The call of the logger that ends \<^verbatim>\<open>execute\<close>; its error is printed, never returned.\<close>

definition logStep :: "world \<Rightarrow> Session \<Rightarrow> string \<Rightarrow> string \<Rightarrow> executor \<Rightarrow> executor" where
  "logStep W ses command result ex =
     (let r = log_result W (trace ex) (Log ses) (Address ses) command result;
          ex1 = ex\<lparr>trace := trace ex @ [LogWrite (Log ses) (Address ses) command result]\<rparr>
      in case r of
           Some e \<Rightarrow> Fprintln (errorString (Wrapped ''log'' e)) ex1
         | None \<Rightarrow> ex1)"

text \<open>
  The block \<^verbatim>\<open>if result != ""\<close> of \<^verbatim>\<open>execute\<close>: a response that is not empty is trimmed,
  normalized with \<^verbatim>\<open>stripColors := false\<close> and printed. It gives the new value of
  \<^verbatim>\<open>result\<close>.
\<close>

definition printResult :: "string \<Rightarrow> executor \<Rightarrow> string \<times> executor" where
  "printResult result ex =
     (if result \<noteq> []
      then let result1 = TrimSpace result;
               result2 = processColorCodes result1 False
           in (result2, Fprintln result2 ex)
      else (result, ex))"

definition execute :: "world \<Rightarrow> Session \<Rightarrow> string \<Rightarrow> executor \<Rightarrow> err option \<times> executor" where
  "execute W ses command ex =
     (if command = [] then (Some ErrCommandEmpty, ex)
      else case client ex of
        None \<Rightarrow> (Some NilClientPanic, ex)
      | Some c \<Rightarrow>
          let answer = exec_result W (sent (trace ex)) command;
              shown = printResult (fst answer) (ex\<lparr>trace := trace ex @ [Send command]\<rparr>)
          in (case snd answer of
                Some e \<Rightarrow>
                  if SkipErrors ses
                  then (None, logStep W ses command (fst shown)
                                (Fprintln (errorString (Wrapped ''execute'' e)) (snd shown)))
                  else (Some (Wrapped ''execute'' e), snd shown)
              | None \<Rightarrow> (None, logStep W ses command (fst shown) (snd shown))))"

subsection \<open>Execute: a batch of commands\<close>

text \<open>
  The loop \<^verbatim>\<open>for i, command := range commands\<close> of \<^verbatim>\<open>Execute\<close>, on the commands that are
  left: \<^verbatim>\<open>i+1 != len(commands)\<close> says that \<open>command\<close> is not the last one.
\<close>

fun executeLoop :: "world \<Rightarrow> Session \<Rightarrow> string list \<Rightarrow> executor \<Rightarrow> err option \<times> executor" where
  "executeLoop W ses [] ex = (None, ex)"
| "executeLoop W ses (command # rest) ex =
     (case execute W ses command ex of
        (Some e, ex1) \<Rightarrow> (Some e, ex1)
      | (None, ex1) \<Rightarrow>
          executeLoop W ses rest
            (if rest \<noteq> [] then Fprintln CommandsResponseSeparator ex1 else ex1))"

text \<open>The function deferred by \<^verbatim>\<open>Execute\<close> for the protocol \<^verbatim>\<open>ProtocolWebRCON\<close>.\<close>

definition deferredClose :: "executor \<Rightarrow> executor" where
  "deferredClose ex =
     (case client ex of
        None \<Rightarrow> ex
      | Some c \<Rightarrow> ex\<lparr>client := None, trace := trace ex @ [CloseConn]\<rparr>)"

definition Execute ::
  "world \<Rightarrow> config_consts \<Rightarrow> Session \<Rightarrow> string list \<Rightarrow> executor \<Rightarrow> err option \<times> executor" where
  "Execute W K ses commands ex =
     (if length commands = 0 then (Some ErrCommandEmpty, ex)
      else let out = (case Dial W K ses ex of
                        (Some e, ex1) \<Rightarrow> (Some (Wrapped ''execute'' e), ex1)
                      | (None, ex1) \<Rightarrow> executeLoop W ses commands ex1)
           in if Type ses = ProtocolWebRCON K then (fst out, deferredClose (snd out))
              else out)"

subsection \<open>Interactive\<close>

text \<open>
  The loop \<^verbatim>\<open>for scanner.Scan()\<close> of \<^verbatim>\<open>Interactive\<close>, on the lines that the scanner
  gives until its input ends. \<^verbatim>\<open>break\<close> leaves for the \<^verbatim>\<open>return nil\<close> of the function.
\<close>

fun interactiveLoop ::
  "world \<Rightarrow> config_consts \<Rightarrow> Session \<Rightarrow> string list \<Rightarrow> executor \<Rightarrow> err option \<times> executor" where
  "interactiveLoop W K ses [] ex = (None, ex)"
| "interactiveLoop W K ses (command # rest) ex =
     (if command \<noteq> [] then
        if command = CommandQuit then (None, ex)
        else case Execute W K ses [command] ex of
               (Some e, ex1) \<Rightarrow> (Some e, ex1)
             | (None, ex1) \<Rightarrow> interactiveLoop W K ses rest (Fprint ''> '' ex1)
      else interactiveLoop W K ses rest (Fprint ''> '' ex))"

text \<open>
  One prompt of \<^verbatim>\<open>Interactive\<close>: when the field is empty, print the question and scan
  one token into the field. The result is the field, the input left and the executor.
\<close>

definition prompt ::
  "world \<Rightarrow> string \<Rightarrow> string \<Rightarrow> string list \<Rightarrow> executor \<Rightarrow> string \<times> string list \<times> executor" where
  "prompt W question field input ex =
     (if field = []
      then (case fst (Fscanln W input) of None \<Rightarrow> field | Some v \<Rightarrow> v,
            snd (Fscanln W input), Fprint question ex)
      else (field, input, ex))"

definition Interactive ::
  "world \<Rightarrow> config_consts \<Rightarrow> string list \<Rightarrow> Session \<Rightarrow> executor
     \<Rightarrow> err option \<times> Session \<times> executor" where
  "Interactive W K input ses ex =
     (let (a, input1, ex1) = prompt W ''Enter remote host and port [ip:port]: ''
                                (Address ses) input ex;
          (p, input2, ex2) = prompt W ''Enter password: '' (Password ses) input1 ex1;
          (t, input3, ex3) = prompt W ''Enter protocol type (empty for rcon): ''
                                (Type ses) input2 ex2;
          ses1 = ses\<lparr>Address := a, Password := p, Type := t\<rparr>
      in if Type ses1 = ProtocolTELNET K then
           (telnet_result W (trace ex3) (Address ses1) (Password ses1), ses1,
            ex3\<lparr>trace := trace ex3 @ [TelnetInteractive (Address ses1) (Password ses1)]\<rparr>)
         else if Type ses1 = [] \<or> Type ses1 = ProtocolRCON K \<or> Type ses1 = ProtocolWebRCON K then
           (case Dial W K ses1 ex3 of
              (Some e, ex4) \<Rightarrow> (Some e, ses1, ex4)
            | (None, ex4) \<Rightarrow>
                (case interactiveLoop W K ses1 input3
                        (Fprint (''Waiting commands for '' @ Address ses1 @ '' (or type ''
                                   @ CommandQuit @ '' to exit)'' @ [CHR 0x0A] @ ''> '') ex4) of
                   (r, ex5) \<Rightarrow> (r, ses1, ex5)))
         else
           (None, ses1,
            Fprint (''Unsupported protocol type ('' @ quoted W (Type ses1) @ ''). Allowed ''
                      @ quoted W (ProtocolRCON K) @ '', '' @ quoted W (ProtocolWebRCON K)
                      @ '' and '' @ quoted W (ProtocolTELNET K) @ '' protocols''
                      @ [CHR 0x0A]) ex3))"

section \<open>A world to run the executor in\<close>

text \<open>
  A concrete session, a concrete set of collaborators and an executor that has not
  dialled yet. The address and the password are those of the scenario of the
  specification (\<^verbatim>\<open>127.0.0.1:16260\<close>, \<^verbatim>\<open>pw\<close>). The remote fails the command \<^verbatim>\<open>bad\<close>
  without a response, answers \<^verbatim>\<open>blank\<close> with one space and \<^verbatim>\<open>quiet\<close> with the empty
  string, and answers every other command with \<^verbatim>\<open>ok\<close>. \<open>refusingWorld\<close> is the same
  world with a server that refuses every connection.
\<close>

definition exampleConsts :: config_consts where
  "exampleConsts = \<lparr>ProtocolRCON = ''rcon'', ProtocolWebRCON = ''web'',
                      ProtocolTELNET = ''telnet'', DefaultConfigEnv = ''default''\<rparr>"

definition exampleSession :: Session where
  "exampleSession = \<lparr>Address = ''127.0.0.1:16260'', Password = ''pw'', Type = ''rcon'',
                       Log = [], SkipErrors = False, Timeout = 0, Variables = False\<rparr>"

definition exampleConfig :: "string \<rightharpoonup> Session" where
  "exampleConfig = [''default'' \<mapsto> exampleSession\<lparr>Log := ''rcon.log''\<rparr>]"

definition exampleWorld :: world where
  "exampleWorld =
     \<lparr>dial_result = (\<lambda>tr p a pw t. None),
      exec_result = (\<lambda>before c.
         if c = ''bad'' then ([], Some (Foreign ''unknown command''))
         else if c = ''blank'' then ('' '', None)
         else if c = ''quiet'' then ([], None)
         else (''ok'', None)),
      log_result = (\<lambda>tr l a c r. None),
      telnet_result = (\<lambda>tr a pw. None),
      NewConfig = (\<lambda>path. Inr exampleConfig),
      Fscanln = (\<lambda>input. case input of [] \<Rightarrow> (None, [])
                   | l # ls \<Rightarrow> (if l = [] then None else Some l, ls)),
      quoted = (\<lambda>s. CHR 0x22 # s @ [CHR 0x22])\<rparr>"

definition refusingWorld :: world where
  "refusingWorld = exampleWorld\<lparr>dial_result := (\<lambda>tr p a pw t. Some (Foreign ''connection refused''))\<rparr>"

definition freshExecutor :: executor where
  "freshExecutor = \<lparr>client = None, trace = []\<rparr>"

definition exampleFlags :: flags where
  "exampleFlags = \<lparr>flag_address = ''127.0.0.1:16260'', flag_password = ''pw'',
                     flag_type = ''rcon'', flag_log = [], flag_skip = False, flag_timeout = 0,
                     flag_variables = False, flag_config = ''rcon.yaml'', flag_env = []\<rparr>"

section \<open>Reading a trace\<close>

text \<open>
  The properties read the trace of an executor through projections: the commands sent
  (\<open>sent\<close>, above), the commands handed to the logger, the number of connects, the
  calls of the logger, and the events that give a batch its shape, which are the
  commands sent and the separator line. \<open>between s xs\<close> puts \<open>s\<close> between the
  successive elements of \<open>xs\<close>. \<open>block_of c b\<close> says that \<open>b\<close> is what one command
  \<open>c\<close> leaves in the trace: it starts with \<open>Send c\<close> and holds no other command and
  no separator line. \<open>logEvents\<close> is what the call of the logger leaves in the trace.
  \<open>flagSession\<close> is the session that \<^verbatim>\<open>NewSession\<close> builds from the flags alone, and
  \<open>chosenEnv\<close> the config environment it reads. \<open>noneFails W before cs\<close> says that the
  server answers every command of \<open>cs\<close> without an error, when they are sent in this
  order after the commands \<open>before\<close>.
\<close>

fun logged :: "event list \<Rightarrow> string list" where
  "logged [] = []"
| "logged (LogWrite l a c r # es) = c # logged es"
| "logged (e # es) = logged es"

fun connects :: "event list \<Rightarrow> nat" where
  "connects [] = 0"
| "connects (Connect p a b n # es) = Suc (connects es)"
| "connects (e # es) = connects es"

fun isLog :: "event \<Rightarrow> bool" where
  "isLog (LogWrite l a c r) = True"
| "isLog e = False"

definition separatorLine :: event where
  "separatorLine = Write (CommandsResponseSeparator @ [CHR 0x0A])"

definition mark :: "event \<Rightarrow> bool" where
  "mark e = (case e of Send c \<Rightarrow> True | _ \<Rightarrow> e = separatorLine)"

fun between :: "'a \<Rightarrow> 'a list \<Rightarrow> 'a list" where
  "between s [] = []"
| "between s [x] = [x]"
| "between s (x # y # zs) = x # s # between s (y # zs)"

definition block_of :: "string \<Rightarrow> event list \<Rightarrow> bool" where
  "block_of c b = (case b of Send d # body \<Rightarrow> d = c \<and> filter mark body = [] | _ \<Rightarrow> False)"

definition logEvents :: "world \<Rightarrow> Session \<Rightarrow> string \<Rightarrow> string \<Rightarrow> event list \<Rightarrow> event list" where
  "logEvents W ses c result tr =
     LogWrite (Log ses) (Address ses) c result
       # (case log_result W tr (Log ses) (Address ses) c result of
            None \<Rightarrow> []
          | Some e \<Rightarrow> [Write (errorString (Wrapped ''log'' e) @ [CHR 0x0A])])"

definition flagSession :: "flags \<Rightarrow> Session" where
  "flagSession c = \<lparr>Address = flag_address c, Password = flag_password c, Type = flag_type c,
                 Log = flag_log c, SkipErrors = flag_skip c, Timeout = flag_timeout c,
                 Variables = flag_variables c\<rparr>"

definition chosenEnv :: "config_consts \<Rightarrow> flags \<Rightarrow> string" where
  "chosenEnv K c = (if flag_env c = [] then DefaultConfigEnv K else flag_env c)"

fun noneFails :: "world \<Rightarrow> string list \<Rightarrow> string list \<Rightarrow> bool" where
  "noneFails W before [] = True"
| "noneFails W before (c # cs) =
     (snd (exec_result W before c) = None \<and> noneFails W (before @ [c]) cs)"

text \<open>
  On byte strings: \<open>hasSentinel xs\<close> says that the two bytes \<^verbatim>\<open>C2 A7\<close>, which encode
  the sentinel U+00A7, stand side by side somewhere in \<open>xs\<close>. \<open>wfBlock b\<close> holds of
  the encoding of every rune but the sentinel: the byte \<^verbatim>\<open>C2\<close> can only come first, and
  then \<open>b\<close> has two bytes, the second of which is not \<^verbatim>\<open>A7\<close>. \<open>allSpace s\<close> says that
  every rune of \<open>s\<close>, as \<^verbatim>\<open>range\<close> reads it, is white space for \<^verbatim>\<open>unicode.IsSpace\<close>.
\<close>

fun hasSentinel :: "string \<Rightarrow> bool" where
  "hasSentinel (a # b # xs) = ((a = CHR 0xC2 \<and> b = CHR 0xA7) \<or> hasSentinel (b # xs))"
| "hasSentinel xs = False"

definition wfBlock :: "string \<Rightarrow> bool" where
  "wfBlock b = (b \<noteq> [] \<and> CHR 0xC2 \<notin> set (tl b)
       \<and> (hd b = CHR 0xC2 \<longrightarrow> length b = 2 \<and> b ! 1 \<noteq> CHR 0xA7))"

definition allSpace :: "string \<Rightarrow> bool" where
  "allSpace s = list_all (\<lambda>(i, r). IsSpace r) (rangeString s 0)"

section \<open>Lemmas\<close>

subsection \<open>Printing and logging\<close>

lemma mark_simps [simp]:
  "mark (Send c)"
  "mark separatorLine"
  "\<not> mark (Connect p a b n)"
  "\<not> mark CloseConn"
  "\<not> mark (LogWrite l a c r)"
  "\<not> mark (TelnetInteractive a b)"
  by (simp_all add: mark_def separatorLine_def)

lemma sent_append [simp]: "sent (xs @ ys) = sent xs @ sent ys"
  by (induction xs rule: sent.induct) auto

lemma logged_append [simp]: "logged (xs @ ys) = logged xs @ logged ys"
  by (induction xs rule: logged.induct) auto

lemma connects_append [simp]: "connects (xs @ ys) = connects xs + connects ys"
  by (induction xs rule: connects.induct) auto

lemma normalized_not_separator:
  "processColorCodes t False @ [CHR 0x0A] \<noteq> CommandsResponseSeparator @ [CHR 0x0A]"
proof
  assume "processColorCodes t False @ [CHR 0x0A] = CommandsResponseSeparator @ [CHR 0x0A]"
  then have "rev (processColorCodes t False @ [CHR 0x0A]) = rev (CommandsResponseSeparator @ [CHR 0x0A])"
    by simp
  then show False
    by (simp add: processColorCodes_def esc_def CommandsResponseSeparator_def)
qed

lemma Fprint_client [simp]: "client (Fprint s ex) = client ex"
  by (simp add: Fprint_def)

lemma Fprint_trace [simp]: "trace (Fprint s ex) = trace ex @ [Write s]"
  by (simp add: Fprint_def)

lemma Fprintln_client [simp]: "client (Fprintln s ex) = client ex"
  by (simp add: Fprintln_def)

lemma Fprintln_trace [simp]: "trace (Fprintln s ex) = trace ex @ [Write (s @ [CHR 0x0A])]"
  by (simp add: Fprintln_def)

lemma printResult_client [simp]: "client (snd (printResult r ex)) = client ex"
  by (simp add: printResult_def Let_def)

lemma printResult_trace:
  "trace (snd (printResult r ex)) =
     trace ex @ (if r \<noteq> [] then [Write (processColorCodes (TrimSpace r) False @ [CHR 0x0A])] else [])"
  by (simp add: printResult_def Let_def)

lemma printResult_fst:
  "fst (printResult r ex) = (if r \<noteq> [] then processColorCodes (TrimSpace r) False else [])"
  by (simp add: printResult_def Let_def)

lemma logStep_client [simp]: "client (logStep W ses c r ex) = client ex"
  by (simp add: logStep_def Let_def split: option.splits)

lemma logStep_trace:
  "trace (logStep W ses c r ex) =
     trace ex @ LogWrite (Log ses) (Address ses) c r
       # (case log_result W (trace ex) (Log ses) (Address ses) c r of
            None \<Rightarrow> []
          | Some e \<Rightarrow> [Write (errorString (Wrapped ''log'' e) @ [CHR 0x0A])])"
  by (simp add: logStep_def Let_def split: option.splits)

lemma mark_response [simp]: "\<not> mark (Write (processColorCodes t False @ [CHR 0x0A]))"
  using normalized_not_separator [of t] by (simp add: mark_def separatorLine_def)

lemma mark_error_line [simp]:
  "\<not> mark (Write (CHR ''e'' # s))" "\<not> mark (Write (CHR ''l'' # s))"
  by (simp_all add: mark_def separatorLine_def CommandsResponseSeparator_def)

subsection \<open>Dial and the deferred close\<close>

lemma Dial_connected: "client ex = Some p \<Longrightarrow> Dial W K ses ex = (None, ex)"
  by (simp add: Dial_def)

lemma Dial_fresh:
  "client ex = None \<Longrightarrow>
   Dial W K ses ex =
     (case dial_result W (trace ex) (dialer K ses) (Address ses) (Password ses) (Timeout ses) of
        Some e \<Rightarrow>
          (Some (Wrapped ''auth'' e),
           ex\<lparr>trace := trace ex @ [Connect (dialer K ses) (Address ses) (Password ses) (Timeout ses)],
              client := None\<rparr>)
      | None \<Rightarrow>
          (None,
           ex\<lparr>trace := trace ex @ [Connect (dialer K ses) (Address ses) (Password ses) (Timeout ses)],
              client := Some (dialer K ses)\<rparr>))"
  by (simp add: Dial_def Let_def split: option.splits)

lemma Dial_sent [simp]: "sent (trace (snd (Dial W K ses ex))) = sent (trace ex)"
  by (simp add: Dial_def Let_def split: option.splits)

lemma Dial_logged [simp]: "logged (trace (snd (Dial W K ses ex))) = logged (trace ex)"
  by (simp add: Dial_def Let_def split: option.splits)

lemma Dial_marks [simp]: "filter mark (trace (snd (Dial W K ses ex))) = filter mark (trace ex)"
  by (simp add: Dial_def Let_def split: option.splits)

lemma Dial_ok_client: "fst (Dial W K ses ex) = None \<Longrightarrow> client (snd (Dial W K ses ex)) \<noteq> None"
  by (simp add: Dial_def Let_def split: option.splits)

lemma Dial_grows: "\<exists>evs. trace (snd (Dial W K ses ex)) = trace ex @ evs"
  by (simp add: Dial_def Let_def split: option.splits)

lemma deferredClose_sent [simp]: "sent (trace (deferredClose ex)) = sent (trace ex)"
  by (simp add: deferredClose_def split: option.splits)

lemma deferredClose_logged [simp]: "logged (trace (deferredClose ex)) = logged (trace ex)"
  by (simp add: deferredClose_def split: option.splits)

lemma deferredClose_marks [simp]: "filter mark (trace (deferredClose ex)) = filter mark (trace ex)"
  by (simp add: deferredClose_def split: option.splits)

lemma deferredClose_trace:
  "client ex \<noteq> None \<Longrightarrow> trace (deferredClose ex) = trace ex @ [CloseConn]"
  by (auto simp add: deferredClose_def)

lemma deferredClose_grows: "\<exists>evs. trace (deferredClose ex) = trace ex @ evs"
  by (simp add: deferredClose_def split: option.splits)

subsection \<open>One command\<close>

lemma execute_empty: "execute W ses [] ex = (Some ErrCommandEmpty, ex)"
  by (simp add: execute_def)

lemma execute_client: "client (snd (execute W ses c ex)) = client ex"
  by (simp add: execute_def Let_def split: option.splits)

lemma execute_fst:
  "c \<noteq> [] \<Longrightarrow> client ex = Some p \<Longrightarrow>
   fst (execute W ses c ex) =
     (case snd (exec_result W (sent (trace ex)) c) of
        None \<Rightarrow> None
      | Some e \<Rightarrow> if SkipErrors ses then None else Some (Wrapped ''execute'' e))"
  by (simp add: execute_def Let_def split: option.splits)

lemma execute_sent:
  "c \<noteq> [] \<Longrightarrow> client ex = Some p \<Longrightarrow>
   sent (trace (snd (execute W ses c ex))) = sent (trace ex) @ [c]"
  by (simp add: execute_def Let_def logStep_trace printResult_trace split: option.splits)

lemma execute_marks:
  "c \<noteq> [] \<Longrightarrow> client ex = Some p \<Longrightarrow>
   filter mark (trace (snd (execute W ses c ex))) = filter mark (trace ex) @ [Send c]"
  by (simp add: execute_def Let_def logStep_trace printResult_trace
           split: option.splits)

lemma execute_logged:
  "c \<noteq> [] \<Longrightarrow> client ex = Some p \<Longrightarrow> fst (execute W ses c ex) = None \<Longrightarrow>
   logged (trace (snd (execute W ses c ex))) = logged (trace ex) @ [c]"
  by (simp add: execute_def Let_def logStep_trace printResult_trace
           split: option.splits if_splits)

lemma execute_block:
  assumes "c \<noteq> []" "client ex = Some p"
  shows "\<exists>body. trace (snd (execute W ses c ex)) = trace ex @ Send c # body
                \<and> filter mark body = [] \<and> sent body = []"
  using assms
  by (simp add: execute_def Let_def logStep_trace printResult_trace split: option.splits)

lemma execute_sent_any:
  "sent (trace (snd (execute W ses c ex))) = sent (trace ex) @ [c]
   \<or> (snd (execute W ses c ex) = ex \<and> fst (execute W ses c ex) \<noteq> None)"
proof (cases "c = [] \<or> client ex = None")
  case True
  then show ?thesis by (auto simp: execute_def)
next
  case False
  then show ?thesis using execute_sent [of c ex _ W ses] by auto
qed

lemma execute_error_line:
  "c \<noteq> [] \<Longrightarrow> client ex = Some p \<Longrightarrow> snd (exec_result W (sent (trace ex)) c) = Some e \<Longrightarrow>
   SkipErrors ses \<Longrightarrow>
   \<exists>pre post. trace (snd (execute W ses c ex))
      = trace ex @ pre @ Write (errorString (Wrapped ''execute'' e) @ [CHR 0x0A]) # post"
proof -
  assume a: "c \<noteq> []" "client ex = Some p" "snd (exec_result W (sent (trace ex)) c) = Some e"
    "SkipErrors ses"
  let ?shown = "printResult (fst (exec_result W (sent (trace ex)) c)) (ex\<lparr>trace := trace ex @ [Send c]\<rparr>)"
  let ?line = "Write (errorString (Wrapped ''execute'' e) @ [CHR 0x0A])"
  have "trace (snd (execute W ses c ex)) =
      trace ex @ (Send c # (if fst (exec_result W (sent (trace ex)) c) \<noteq> []
                    then [Write (processColorCodes (TrimSpace (fst (exec_result W (sent (trace ex)) c))) False @ [CHR 0x0A])]
                    else []))
        @ ?line # (LogWrite (Log ses) (Address ses) c (fst ?shown)
             # (case log_result W (trace (Fprintln (errorString (Wrapped ''execute'' e)) (snd ?shown)))
                       (Log ses) (Address ses) c (fst ?shown) of
                  None \<Rightarrow> []
                | Some e \<Rightarrow> [Write (errorString (Wrapped ''log'' e) @ [CHR 0x0A])]))"
    using a by (simp add: execute_def Let_def logStep_trace printResult_trace del: errorString.simps)
  then show ?thesis by blast
qed

lemma execute_grows: "\<exists>evs. trace (snd (execute W ses c ex)) = trace ex @ evs"
proof (cases "c = [] \<or> client ex = None")
  case True
  then show ?thesis by (auto simp: execute_def)
next
  case False
  then obtain p where "c \<noteq> []" "client ex = Some p" by auto
  from execute_block [OF this, of W ses] show ?thesis by blast
qed

lemma execute_trace:
  assumes "c \<noteq> []" "client ex = Some p" "exec_result W (sent (trace ex)) c = (resp, r)"
  shows "trace (snd (execute W ses c ex)) =
     (let result = (if resp \<noteq> [] then processColorCodes (TrimSpace resp) False else []);
          shown = trace ex @ Send c # (if resp \<noteq> [] then [Write (result @ [CHR 0x0A])] else [])
      in case r of
           None \<Rightarrow> shown @ logEvents W ses c result shown
         | Some e \<Rightarrow>
             if SkipErrors ses
             then shown @ Write (errorString (Wrapped ''execute'' e) @ [CHR 0x0A])
                    # logEvents W ses c result
                        (shown @ [Write (errorString (Wrapped ''execute'' e) @ [CHR 0x0A])])
             else shown)"
  using assms
  by (simp add: execute_def Let_def logStep_trace printResult_trace printResult_fst logEvents_def
        split: option.splits del: errorString.simps)

subsection \<open>The loop over a batch\<close>

lemma executeLoop_client: "client (snd (executeLoop W ses cs ex)) = client ex"
proof (induction cs arbitrary: ex)
  case Nil
  then show ?case by simp
next
  case (Cons c cs)
  obtain r ex1 where ex1: "execute W ses c ex = (r, ex1)" by (cases "execute W ses c ex")
  have cl1: "client ex1 = client ex" using execute_client [of W ses c ex] ex1 by simp
  show ?case
  proof (cases r)
    case None
    then show ?thesis using ex1 cl1 Cons.IH by simp
  next
    case (Some e)
    then show ?thesis using ex1 cl1 by simp
  qed
qed

lemma executeLoop_ok:
  "client ex \<noteq> None \<Longrightarrow> fst (executeLoop W ses cs ex) = None \<Longrightarrow>
   sent (trace (snd (executeLoop W ses cs ex))) = sent (trace ex) @ cs \<and>
   logged (trace (snd (executeLoop W ses cs ex))) = logged (trace ex) @ cs \<and>
   filter mark (trace (snd (executeLoop W ses cs ex)))
     = filter mark (trace ex) @ between separatorLine (map Send cs)"
proof (induction cs arbitrary: ex)
  case Nil
  then show ?case by simp
next
  case (Cons c cs)
  obtain r ex1 where ex1: "execute W ses c ex = (r, ex1)" by (cases "execute W ses c ex")
  from Cons.prems(2) ex1 have r: "r = None" by (cases r) simp_all
  from Cons.prems(1) obtain p where p: "client ex = Some p" by auto
  have c: "c \<noteq> []" using r ex1 by (auto simp: execute_def)
  have cl1: "client ex1 = client ex" using execute_client [of W ses c ex] ex1 by simp
  have s1: "sent (trace ex1) = sent (trace ex) @ [c]"
    using execute_sent [OF c p, of W ses] ex1 by simp
  have l1: "logged (trace ex1) = logged (trace ex) @ [c]"
    using execute_logged [OF c p, of W ses] ex1 r by simp
  have m1: "filter mark (trace ex1) = filter mark (trace ex) @ [Send c]"
    using execute_marks [OF c p, of W ses] ex1 by simp
  show ?case
  proof (cases cs)
    case Nil
    with ex1 r s1 l1 m1 show ?thesis by simp
  next
    case (Cons d ds)
    let ?ex2 = "Fprintln CommandsResponseSeparator ex1"
    have step: "executeLoop W ses (c # cs) ex = executeLoop W ses cs ?ex2"
      using ex1 r Cons by simp
    have "client ?ex2 \<noteq> None" using cl1 p by simp
    moreover have "fst (executeLoop W ses cs ?ex2) = None"
      using Cons.prems(2) step by simp
    ultimately have IH:
      "sent (trace (snd (executeLoop W ses cs ?ex2))) = sent (trace ?ex2) @ cs \<and>
       logged (trace (snd (executeLoop W ses cs ?ex2))) = logged (trace ?ex2) @ cs \<and>
       filter mark (trace (snd (executeLoop W ses cs ?ex2)))
         = filter mark (trace ?ex2) @ between separatorLine (map Send cs)"
      by (rule Cons.IH)
    have b: "between separatorLine (map Send (c # cs))
               = Send c # separatorLine # between separatorLine (map Send cs)"
      using Cons by simp
    have tr2: "trace ?ex2 = trace ex1 @ [separatorLine]"
      by (simp add: separatorLine_def)
    have [simp]: "sent [separatorLine] = []" "logged [separatorLine] = []"
      by (simp_all add: separatorLine_def)
    show ?thesis
      unfolding step b using IH s1 l1 m1 by (simp add: tr2 del: Fprintln_trace)
  qed
qed

lemma executeLoop_blocks:
  "client ex \<noteq> None \<Longrightarrow> fst (executeLoop W ses cs ex) = None \<Longrightarrow>
   \<exists>blocks. list_all2 block_of cs blocks
      \<and> trace (snd (executeLoop W ses cs ex))
          = trace ex @ concat (between [separatorLine] blocks)"
proof (induction cs arbitrary: ex)
  case Nil
  then show ?case by simp
next
  case (Cons c cs)
  obtain r ex1 where ex1: "execute W ses c ex = (r, ex1)" by (cases "execute W ses c ex")
  from Cons.prems(2) ex1 have r: "r = None" by (cases r) simp_all
  from Cons.prems(1) obtain p where p: "client ex = Some p" by auto
  have c: "c \<noteq> []" using r ex1 by (auto simp: execute_def)
  have cl1: "client ex1 = client ex" using execute_client [of W ses c ex] ex1 by simp
  from execute_block [OF c p, of W ses] ex1
  obtain body where body: "trace ex1 = trace ex @ Send c # body" "filter mark body = []"
    by auto
  have b1: "block_of c (Send c # body)" using body(2) by (simp add: block_of_def)
  show ?case
  proof (cases cs)
    case Nil
    have "list_all2 block_of (c # cs) [Send c # body]" using Nil b1 by simp
    moreover have "trace (snd (executeLoop W ses (c # cs) ex))
        = trace ex @ concat (between [separatorLine] [Send c # body])"
      using Nil ex1 r body(1) by simp
    ultimately show ?thesis by blast
  next
    case (Cons d ds)
    let ?ex2 = "Fprintln CommandsResponseSeparator ex1"
    have step: "executeLoop W ses (c # cs) ex = executeLoop W ses cs ?ex2"
      using ex1 r Cons by simp
    have "client ?ex2 \<noteq> None" using cl1 p by simp
    moreover have "fst (executeLoop W ses cs ?ex2) = None"
      using Cons.prems(2) step by simp
    ultimately obtain blocks where blocks: "list_all2 block_of cs blocks"
      "trace (snd (executeLoop W ses cs ?ex2)) = trace ?ex2 @ concat (between [separatorLine] blocks)"
      using Cons.IH by blast
    from blocks(1) Cons obtain b bs where bs: "blocks = b # bs"
      by (cases blocks) auto
    have tr2: "trace ?ex2 = trace ex1 @ [separatorLine]"
      by (simp add: separatorLine_def)
    have "list_all2 block_of (c # cs) ((Send c # body) # blocks)"
      using b1 blocks(1) by simp
    moreover have "trace (snd (executeLoop W ses (c # cs) ex))
        = trace ex @ concat (between [separatorLine] ((Send c # body) # blocks))"
      unfolding step blocks(2) tr2 body(1) bs by simp
    ultimately show ?thesis by blast
  qed
qed

lemma count_between:
  "separatorLine \<notin> set xs \<Longrightarrow>
   length (filter (\<lambda>e. e = separatorLine) (between separatorLine xs)) = length xs - 1"
  by (induction separatorLine xs rule: between.induct) auto

lemma separators_marks:
  "filter (\<lambda>e. e = separatorLine) (filter mark es) = filter (\<lambda>e. e = separatorLine) es"
  by (induction es) auto

lemma executeLoop_reaches_empty:
  "client ex \<noteq> None \<Longrightarrow> [] \<in> set cs \<Longrightarrow>
   SkipErrors ses \<or> noneFails W (sent (trace ex)) (takeWhile (\<lambda>c. c \<noteq> []) cs) \<Longrightarrow>
   fst (executeLoop W ses cs ex) = Some ErrCommandEmpty
   \<and> sent (trace (snd (executeLoop W ses cs ex)))
       = sent (trace ex) @ takeWhile (\<lambda>c. c \<noteq> []) cs"
proof (induction cs arbitrary: ex)
  case Nil
  then show ?case by simp
next
  case (Cons c cs)
  show ?case
  proof (cases "c = []")
    case True
    then show ?thesis by (simp add: execute_empty)
  next
    case False
    from Cons.prems(1) obtain p where p: "client ex = Some p" by auto
    obtain r ex1 where ex1: "execute W ses c ex = (r, ex1)" by (cases "execute W ses c ex")
    from Cons.prems(3) False
    have ok: "SkipErrors ses \<or> snd (exec_result W (sent (trace ex)) c) = None" by auto
    have r: "r = None"
      using execute_fst [OF False p, of W ses] ex1 ok by (auto split: option.splits)
    have cl1: "client ex1 = client ex" using execute_client [of W ses c ex] ex1 by simp
    have s1: "sent (trace ex1) = sent (trace ex) @ [c]"
      using execute_sent [OF False p, of W ses] ex1 by simp
    let ?ex2 = "if cs \<noteq> [] then Fprintln CommandsResponseSeparator ex1 else ex1"
    have step: "executeLoop W ses (c # cs) ex = executeLoop W ses cs ?ex2"
      using ex1 r by simp
    have s2: "sent (trace ?ex2) = sent (trace ex) @ [c]" using s1 by simp
    have c2: "client ?ex2 \<noteq> None" using cl1 p by simp
    have mem: "[] \<in> set cs" using Cons.prems(2) False by auto
    from Cons.prems(3) False
    have ok2: "SkipErrors ses \<or> noneFails W (sent (trace ?ex2)) (takeWhile (\<lambda>c. c \<noteq> []) cs)"
      unfolding s2 by auto
    from Cons.IH [OF c2 mem ok2]
    have "fst (executeLoop W ses cs ?ex2) = Some ErrCommandEmpty
       \<and> sent (trace (snd (executeLoop W ses cs ?ex2)))
           = sent (trace ?ex2) @ takeWhile (\<lambda>c. c \<noteq> []) cs" .
    then show ?thesis unfolding step s2 using False by simp
  qed
qed

lemma executeLoop_empty_fails:
  "[] \<in> set cs \<Longrightarrow> fst (executeLoop W ses cs ex) \<noteq> None"
proof (induction cs arbitrary: ex)
  case Nil
  then show ?case by simp
next
  case (Cons c cs)
  show ?case
  proof (cases "c = []")
    case True
    then show ?thesis by (simp add: execute_empty)
  next
    case False
    with Cons.prems have "[] \<in> set cs" by auto
    from Cons.IH [OF this] show ?thesis
      by (cases "execute W ses c ex") (auto split: option.splits)
  qed
qed

lemma executeLoop_sent_prefix:
  "\<exists>k. sent (trace (snd (executeLoop W ses cs ex)))
         = sent (trace ex) @ take k (takeWhile (\<lambda>c. c \<noteq> []) cs)"
proof (induction cs arbitrary: ex)
  case Nil
  then show ?case by simp
next
  case (Cons c cs)
  show ?case
  proof (cases "c = []")
    case True
    then show ?thesis by (simp add: execute_empty)
  next
    case False
    obtain r ex1 where ex1: "execute W ses c ex = (r, ex1)" by (cases "execute W ses c ex")
    show ?thesis
    proof (cases r)
      case (Some e)
      from execute_sent_any [of W ses c ex] ex1
      have "sent (trace ex1) = sent (trace ex) @ [c] \<or> ex1 = ex" by auto
      then show ?thesis
      proof
        assume "sent (trace ex1) = sent (trace ex) @ [c]"
        then have "sent (trace (snd (executeLoop W ses (c # cs) ex)))
            = sent (trace ex) @ take 1 (takeWhile (\<lambda>c. c \<noteq> []) (c # cs))"
          using ex1 Some False by simp
        then show ?thesis by blast
      next
        assume "ex1 = ex"
        then have "sent (trace (snd (executeLoop W ses (c # cs) ex)))
            = sent (trace ex) @ take 0 (takeWhile (\<lambda>c. c \<noteq> []) (c # cs))"
          using ex1 Some by simp
        then show ?thesis by blast
      qed
    next
      case None
      from execute_sent_any [of W ses c ex] ex1 None
      have s1: "sent (trace ex1) = sent (trace ex) @ [c]" by auto
      let ?ex2 = "if cs \<noteq> [] then Fprintln CommandsResponseSeparator ex1 else ex1"
      have step: "executeLoop W ses (c # cs) ex = executeLoop W ses cs ?ex2"
        using ex1 None by simp
      from Cons.IH [of ?ex2] obtain k where
        "sent (trace (snd (executeLoop W ses cs ?ex2)))
           = sent (trace ?ex2) @ take k (takeWhile (\<lambda>c. c \<noteq> []) cs)" by blast
      then have "sent (trace (snd (executeLoop W ses (c # cs) ex)))
           = sent (trace ex) @ take (Suc k) (takeWhile (\<lambda>c. c \<noteq> []) (c # cs))"
        unfolding step using s1 False by simp
      then show ?thesis by blast
    qed
  qed
qed

lemma executeLoop_grows: "\<exists>evs. trace (snd (executeLoop W ses cs ex)) = trace ex @ evs"
proof (induction cs arbitrary: ex)
  case Nil
  then show ?case by simp
next
  case (Cons c cs)
  obtain r ex1 where ex1: "execute W ses c ex = (r, ex1)" by (cases "execute W ses c ex")
  from execute_grows [of W ses c ex] ex1 obtain evs1 where e1: "trace ex1 = trace ex @ evs1"
    by auto
  show ?case
  proof (cases r)
    case (Some e)
    then show ?thesis using ex1 e1 by simp
  next
    case None
    let ?ex2 = "if cs \<noteq> [] then Fprintln CommandsResponseSeparator ex1 else ex1"
    from Cons.IH [of ?ex2] obtain evs2 where
      "trace (snd (executeLoop W ses cs ?ex2)) = trace ?ex2 @ evs2" by blast
    moreover have "trace ?ex2
        = trace ex @ evs1 @ (if cs \<noteq> [] then [Write (CommandsResponseSeparator @ [CHR 0x0A])] else [])"
      using e1 by simp
    ultimately have "trace (snd (executeLoop W ses cs ?ex2))
        = trace ex @ (evs1 @ (if cs \<noteq> [] then [Write (CommandsResponseSeparator @ [CHR 0x0A])] else [])
            @ evs2)"
      by simp
    then have "\<exists>evs. trace (snd (executeLoop W ses cs ?ex2)) = trace ex @ evs"
      by blast
    then show ?thesis using ex1 None by simp
  qed
qed

lemma executeLoop_skip_ok:
  "SkipErrors ses \<Longrightarrow> client ex \<noteq> None \<Longrightarrow> [] \<notin> set cs \<Longrightarrow>
   fst (executeLoop W ses cs ex) = None"
proof (induction cs arbitrary: ex)
  case Nil
  then show ?case by simp
next
  case (Cons c cs)
  from Cons.prems(2) obtain p where p: "client ex = Some p" by auto
  from Cons.prems(3) have c: "c \<noteq> []" by auto
  obtain r ex1 where ex1: "execute W ses c ex = (r, ex1)" by (cases "execute W ses c ex")
  have r: "r = None"
    using execute_fst [OF c p, of W ses] ex1 Cons.prems(1) by (simp split: option.splits)
  have cl1: "client ex1 = client ex" using execute_client [of W ses c ex] ex1 by simp
  let ?ex2 = "if cs \<noteq> [] then Fprintln CommandsResponseSeparator ex1 else ex1"
  have "client ?ex2 \<noteq> None" using cl1 p by simp
  moreover have "[] \<notin> set cs" using Cons.prems(3) by auto
  ultimately have "fst (executeLoop W ses cs ?ex2) = None"
    using Cons.IH [OF Cons.prems(1)] by blast
  then show ?case using ex1 r by simp
qed

lemma executeLoop_all_ok:
  "client ex \<noteq> None \<Longrightarrow> (\<And>c h. c \<in> set cs \<Longrightarrow> c \<noteq> [] \<and> snd (exec_result W h c) = None) \<Longrightarrow>
   fst (executeLoop W ses cs ex) = None"
proof (induction cs arbitrary: ex)
  case Nil
  then show ?case by simp
next
  case (Cons c cs)
  from Cons.prems(1) obtain p where p: "client ex = Some p" by auto
  from Cons.prems(2) [of c] have c: "c \<noteq> []"
    and ok: "snd (exec_result W (sent (trace ex)) c) = None" by simp_all
  obtain r ex1 where ex1: "execute W ses c ex = (r, ex1)" by (cases "execute W ses c ex")
  have r: "r = None"
    using execute_fst [OF c p, of W ses] ex1 ok by simp
  have cl1: "client ex1 = client ex" using execute_client [of W ses c ex] ex1 by simp
  let ?ex2 = "if cs \<noteq> [] then Fprintln CommandsResponseSeparator ex1 else ex1"
  have "client ?ex2 \<noteq> None" using cl1 p by simp
  then have "fst (executeLoop W ses cs ?ex2) = None"
    using Cons.prems(2) by (intro Cons.IH) simp_all
  then show ?case using ex1 r by simp
qed

lemma Execute_connected:
  "cs \<noteq> [] \<Longrightarrow> fst (Dial W K ses ex) = None \<Longrightarrow>
   Execute W K ses cs ex =
     (if Type ses = ProtocolWebRCON K
      then (fst (executeLoop W ses cs (snd (Dial W K ses ex))),
            deferredClose (snd (executeLoop W ses cs (snd (Dial W K ses ex)))))
      else executeLoop W ses cs (snd (Dial W K ses ex)))"
  by (cases "Dial W K ses ex") (simp add: Execute_def Let_def)

lemma Execute_dial_failed:
  "cs \<noteq> [] \<Longrightarrow> fst (Dial W K ses ex) = Some e \<Longrightarrow>
   fst (Execute W K ses cs ex) = Some (Wrapped ''execute'' e)
   \<and> sent (trace (snd (Execute W K ses cs ex))) = sent (trace ex)"
proof -
  assume cs: "cs \<noteq> []" and d: "fst (Dial W K ses ex) = Some e"
  obtain ex1 where D: "Dial W K ses ex = (Some e, ex1)"
    using d by (cases "Dial W K ses ex") auto
  have "sent (trace ex1) = sent (trace ex)" using Dial_sent [of W K ses ex] D by simp
  then show ?thesis using cs D by (simp add: Execute_def Let_def)
qed

lemma Execute_ok_parts:
  "cs \<noteq> [] \<Longrightarrow> fst (Execute W K ses cs ex) = None \<Longrightarrow>
   fst (Dial W K ses ex) = None \<and> fst (executeLoop W ses cs (snd (Dial W K ses ex))) = None"
  by (cases "Dial W K ses ex") (auto simp add: Execute_def Let_def split: option.splits if_splits)

subsection \<open>UTF-8\<close>

text \<open>
  The bit operations of the encoder and the decoder, read as arithmetic; the shape of an
  encoded rune; the range of a decoded rune; the bytes that decode to the sentinel.
\<close>

lemma or_disjoint_int:
  assumes "0 \<le> y" "y < 2 ^ n"
  shows "push_bit n x OR y = push_bit n x + (y::int)"
proof -
  have y: "take_bit n y = y" using assms by (simp add: take_bit_int_eq_self)
  have "push_bit n x AND take_bit n y = 0"
    by (rule bit_eqI) (auto simp: bit_simps)
  then have "push_bit n x AND y = 0" by (simp add: y)
  then show ?thesis by (simp add: disjunctive_add_eq_or)
qed

lemma and_63_int: "(x::int) AND 0x3F = x mod 64"
proof -
  have "x AND mask 6 = x mod 2 ^ 6" by (simp only: take_bit_eq_mod flip: take_bit_eq_mask)
  then show ?thesis by (simp add: mask_eq_exp_minus_1)
qed

lemma or_128: "0 \<le> y \<Longrightarrow> y < 64 \<Longrightarrow> (0x80::int) OR y = 128 + y"
  using or_disjoint_int [of y 7 1] by simp

lemma or_192: "0 \<le> y \<Longrightarrow> y < 64 \<Longrightarrow> (0xC0::int) OR y = 192 + y"
  using or_disjoint_int [of y 6 3] by simp

lemma or_224: "0 \<le> y \<Longrightarrow> y < 32 \<Longrightarrow> (0xE0::int) OR y = 224 + y"
  using or_disjoint_int [of y 5 7] by simp

lemma or_240: "0 \<le> y \<Longrightarrow> y < 16 \<Longrightarrow> (0xF0::int) OR y = 240 + y"
  using or_disjoint_int [of y 4 15] by simp

lemma char_of_eq_numeral:
  "0 \<le> n \<Longrightarrow> n < 256 \<Longrightarrow> (char_of (n::int) = c) = (n = of_char c)"
  "0 \<le> n \<Longrightarrow> n < 256 \<Longrightarrow> (c = char_of (n::int)) = (n = of_char c)"
  by (auto simp add: char_of_eq_iff take_bit_int_eq_self)

lemma cont_byte:
  "char_of ((0x80::int) OR (x AND 0x3F)) \<noteq> CHR 0xC2"
  "CHR 0xC2 \<noteq> char_of ((0x80::int) OR (x AND 0x3F))"
proof -
  have "0 \<le> x mod 64" "x mod 64 < 64" by simp_all
  then show "char_of ((0x80::int) OR (x AND 0x3F)) \<noteq> CHR 0xC2"
    by (simp add: and_63_int or_128 char_of_eq_numeral)
  then show "CHR 0xC2 \<noteq> char_of ((0x80::int) OR (x AND 0x3F))"
    by (rule not_sym)
qed

lemma enc3_wf: "0 \<le> r \<Longrightarrow> r \<le> 0xFFFF \<Longrightarrow> wfBlock (enc3 r)"
proof -
  assume r: "0 \<le> r" "r \<le> 0xFFFF"
  have d: "0 \<le> r div 4096" "r div 4096 < 32" using r by auto
  show ?thesis
    using d by (simp add: wfBlock_def enc3_def cont_byte drop_bit_eq_div or_224 char_of_eq_numeral)
qed

lemma EncodeRune_wf:
  assumes "0 \<le> r" "r < 2 ^ 32" "r \<noteq> sentinel"
  shows "wfBlock (EncodeRune r)"
proof -
  have i: "r mod 4294967296 = r" using assms by simp
  consider "r \<le> 0x7F" | "0x7F < r" "r \<le> 0x7FF" | "0x7FF < r" "0x10FFFF < r \<or> (0xD800 \<le> r \<and> r \<le> 0xDFFF)"
    | "0x7FF < r" "\<not> (0x10FFFF < r \<or> (0xD800 \<le> r \<and> r \<le> 0xDFFF))" "r \<le> 0xFFFF"
    | "0xFFFF < r" "r \<le> 0x10FFFF"
    by linarith
  then show ?thesis
  proof cases
    case 1
    then show ?thesis using assms(1)
      by (simp add: EncodeRune_def i wfBlock_def char_of_eq_numeral)
  next
    case 2
    have d: "0 \<le> r div 64" "r div 64 < 64" using 2 assms(1) by auto
    have m: "0 \<le> r mod 64" "r mod 64 < 64" by simp_all
    have "r div 64 = 2 \<Longrightarrow> r mod 64 = 39 \<Longrightarrow> r = 167" by presburger
    then show ?thesis using 2 d m assms(3)
      by (auto simp add: EncodeRune_def i wfBlock_def drop_bit_eq_div and_63_int or_192 or_128
            char_of_eq_numeral)
  next
    case 3
    have "wfBlock (enc3 RuneError)" by (rule enc3_wf) simp_all
    then show ?thesis using 3 by (auto simp add: EncodeRune_def i Let_def)
  next
    case 4
    have "wfBlock (enc3 r)" using 4 assms(1) by (intro enc3_wf) simp_all
    then show ?thesis using 4 by (auto simp add: EncodeRune_def i Let_def)
  next
    case 5
    have d: "0 \<le> r div 262144" "r div 262144 < 16" using 5 by auto
    show ?thesis using 5 d
      by (simp add: EncodeRune_def i wfBlock_def cont_byte drop_bit_eq_div or_240 char_of_eq_numeral)
  qed
qed

lemma or_lt32:
  "0 \<le> a \<Longrightarrow> a < 4294967296 \<Longrightarrow> b < 4294967296 \<Longrightarrow> a OR b < (4294967296::int)"
  using OR_upper [of a 32 b] by simp

lemma piece32:
  assumes "0 \<le> m" "m < 64" "k \<le> 18"
  shows "0 \<le> push_bit k (int x AND m) \<and> push_bit k (int x AND m) < 4294967296"
proof -
  have a: "0 \<le> int x AND m" "int x AND m \<le> m" using assms(1) by simp_all
  then have "int x AND m < 2 ^ 6" using assms(2) by simp
  then have "(int x AND m) * 2 ^ k < 2 ^ 6 * 2 ^ k" by simp
  also have "\<dots> = 2 ^ (6 + k)" by (simp add: power_add)
  also have "\<dots> \<le> (2::int) ^ 24" using assms(3) by (intro power_increasing) simp_all
  finally have "push_bit k (int x AND m) < 2 ^ 24" by (simp add: push_bit_eq_mult)
  then show ?thesis using a(1) by (simp add: push_bit_eq_mult)
qed

lemma piece32_0:
  assumes "0 \<le> m" "m < 64"
  shows "0 \<le> int x AND m \<and> int x AND m < 4294967296"
  using piece32 [OF assms, of 0 x] by simp

lemma DecodeRuneInString_range:
  "0 \<le> fst (DecodeRuneInString s) \<and> fst (DecodeRuneInString s) < 4294967296"
proof (cases s)
  case Nil
  then show ?thesis by (simp add: DecodeRuneInString_def)
next
  case (Cons c0 rest)
  have b: "int (of_char c0) < 4294967296"
    using nat_of_char_less_256 [of c0] by linarith
  note p = piece32 [THEN conjunct1] piece32 [THEN conjunct2]
    piece32_0 [THEN conjunct1] piece32_0 [THEN conjunct2]
  show ?thesis
    using b unfolding Cons
    by (auto simp add: DecodeRuneInString_def Let_def of_nat_or_eq of_nat_and_eq of_nat_push_bit
          split: lead.splits intro!: or_lt32 p)
qed

lemma rangeString_runes:
  "(i, r) \<in> set (rangeString s k) \<Longrightarrow> 0 \<le> r \<and> r < 4294967296"
proof (induction s k rule: rangeString.induct)
  case (1 s k)
  show ?case
  proof (cases "k < length s")
    case True
    from "1.prems" True have
      "(i, r) = (k, fst (DecodeRuneInString (drop k s)))
       \<or> (i, r) \<in> set (rangeString s (k + snd (DecodeRuneInString (drop k s))))"
      by (subst (asm) rangeString.simps) simp
    then show ?thesis
    proof
      assume "(i, r) = (k, fst (DecodeRuneInString (drop k s)))"
      then show ?thesis using DecodeRuneInString_range [of "drop k s"] by simp
    next
      assume "(i, r) \<in> set (rangeString s (k + snd (DecodeRuneInString (drop k s))))"
      from "1.IH" [OF True this] show ?thesis .
    qed
  next
    case False
    with "1.prems" show ?thesis by (subst (asm) rangeString.simps) simp
  qed
qed

lemma hasSentinel_iff:
  "hasSentinel xs \<longleftrightarrow> (\<exists>pre post. xs = pre @ [CHR 0xC2, CHR 0xA7] @ post)"
proof
  show "hasSentinel xs \<Longrightarrow> \<exists>pre post. xs = pre @ [CHR 0xC2, CHR 0xA7] @ post"
  proof (induction xs rule: hasSentinel.induct)
    case (1 a b xs)
    show ?case
    proof (cases "a = CHR 0xC2 \<and> b = CHR 0xA7")
      case True
      then have "a # b # xs = [] @ [CHR 0xC2, CHR 0xA7] @ xs" by simp
      then show ?thesis by blast
    next
      case False
      with 1 obtain pre post where "b # xs = pre @ [CHR 0xC2, CHR 0xA7] @ post" by auto
      then have "a # b # xs = (a # pre) @ [CHR 0xC2, CHR 0xA7] @ post" by simp
      then show ?thesis by blast
    qed
  qed simp_all
next
  assume "\<exists>pre post. xs = pre @ [CHR 0xC2, CHR 0xA7] @ post"
  then obtain pre post where xs: "xs = pre @ [CHR 0xC2, CHR 0xA7] @ post" by blast
  have "hasSentinel (pre @ [CHR 0xC2, CHR 0xA7] @ post)"
  proof (induction pre)
    case Nil
    then show ?case by simp
  next
    case (Cons a pre)
    then show ?case by (cases "pre @ [CHR 0xC2, CHR 0xA7] @ post") auto
  qed
  then show "hasSentinel xs" by (simp add: xs)
qed

lemma hasSentinel_append_wf:
  assumes "wfBlock b" "\<not> hasSentinel rest"
  shows "\<not> hasSentinel (b @ rest)"
proof
  assume "hasSentinel (b @ rest)"
  then obtain pre post where eq: "b @ rest = pre @ [CHR 0xC2, CHR 0xA7] @ post"
    by (auto simp: hasSentinel_iff)
  from assms(1) have ne: "b \<noteq> []" and tl: "CHR 0xC2 \<notin> set (tl b)"
    and hd: "hd b = CHR 0xC2 \<Longrightarrow> length b = 2 \<and> b ! 1 \<noteq> CHR 0xA7"
    by (auto simp: wfBlock_def)
  show False
  proof (cases "length pre < length b")
    case True
    have c2: "b ! length pre = CHR 0xC2"
      using eq True by (metis nth_append nth_append_length append_Cons)
    show False
    proof (cases "length pre")
      case 0
      then have "hd b = CHR 0xC2" using c2 ne by (simp add: hd_conv_nth)
      from hd [OF this] have l: "length b = 2" and n: "b ! 1 \<noteq> CHR 0xA7" by simp_all
      from 0 eq have "b @ rest = CHR 0xC2 # CHR 0xA7 # post" by simp
      then have "(b @ rest) ! 1 = CHR 0xA7" by simp
      then have "b ! 1 = CHR 0xA7" using l by (simp add: nth_append)
      with n show False by simp
    next
      case (Suc k)
      then have "b ! Suc k = CHR 0xC2" using c2 by simp
      moreover have "Suc k < length b" using True Suc by simp
      ultimately have "tl b ! k = CHR 0xC2" "k < length (tl b)"
        by (simp_all add: nth_tl)
      then have "CHR 0xC2 \<in> set (tl b)"
        by (metis nth_mem)
      with tl show False by simp
    qed
  next
    case False
    then obtain pre' where "pre = b @ pre'"
      using eq by (metis append_eq_append_conv_if append_take_drop_id not_less)
    with eq have "rest = pre' @ [CHR 0xC2, CHR 0xA7] @ post" by simp
    then have "hasSentinel rest" by (auto simp: hasSentinel_iff)
    with assms(2) show False by simp
  qed
qed

lemma concat_no_sentinel:
  "(\<And>b. b \<in> set bs \<Longrightarrow> b = [] \<or> wfBlock b) \<Longrightarrow> \<not> hasSentinel (concat bs)"
proof (induction bs)
  case Nil
  then show ?case by simp
next
  case (Cons b bs)
  then have rest: "\<not> hasSentinel (concat bs)" by simp
  from Cons.prems [of b] have "b = [] \<or> wfBlock b" by simp
  then show ?case
  proof
    assume "b = []"
    then show ?thesis using rest by simp
  next
    assume "wfBlock b"
    from hasSentinel_append_wf [OF this rest] show ?thesis by simp
  qed
qed

lemma TrimSpace_allSpace: "allSpace s \<Longrightarrow> TrimSpace s = []"
proof -
  assume "allSpace s"
  then have "find (\<lambda>(i, r). IsSpace r = False) (rangeString s 0) = None"
    by (auto simp: allSpace_def find_None_iff list_all_iff)
  then have "TrimLeftFunc s IsSpace = []"
    by (simp add: TrimLeftFunc_def indexFunc_def)
  moreover have "TrimRightFunc [] IsSpace = []"
    by (simp add: TrimRightFunc_def Let_def lastIndexFunc.simps)
  ultimately show ?thesis by (simp add: TrimSpace_def TrimFunc_def)
qed

lemma processColorCodes_empty: "processColorCodes [] False = esc ''[0m''"
  by (simp add: processColorCodes_def rangeString.simps)

lemma window_32: "194 \<le> a \<Longrightarrow> a < 224 \<Longrightarrow> a mod 32 = a - (192::nat)"
proof -
  assume h: "194 \<le> a" "a < 224"
  define k where "k = a - 192"
  from h have a: "a = 32 * 6 + k" and k: "k < 32" by (simp_all add: k_def)
  have m: "(32 * 6 + k) mod 32 = k" using k by (simp only: mod_mult_self4 mod_less)
  show ?thesis unfolding k_def [symmetric] by (subst a) (rule m)
qed

lemma window_64: "128 \<le> b \<Longrightarrow> b \<le> 191 \<Longrightarrow> b mod 64 = b - (128::nat)"
proof -
  assume h: "128 \<le> b" "b \<le> 191"
  define k where "k = b - 128"
  from h have a: "b = 64 * 2 + k" and k: "k < 64" by (simp_all add: k_def)
  have m: "(64 * 2 + k) mod 64 = k" using k by (simp only: mod_mult_self4 mod_less)
  show ?thesis unfolding k_def [symmetric] by (subst a) (rule m)
qed

lemma window_16: "224 \<le> a \<Longrightarrow> a < 240 \<Longrightarrow> a mod 16 = a - (224::nat)"
proof -
  assume h: "224 \<le> a" "a < 240"
  define k where "k = a - 224"
  from h have a: "a = 16 * 14 + k" and k: "k < 16" by (simp_all add: k_def)
  have m: "(16 * 14 + k) mod 16 = k" using k by (simp only: mod_mult_self4 mod_less)
  show ?thesis unfolding k_def [symmetric] by (subst a) (rule m)
qed

lemma window_8: "240 \<le> a \<Longrightarrow> a \<le> 244 \<Longrightarrow> a mod 8 = a - (240::nat)"
proof -
  assume h: "240 \<le> a" "a \<le> 244"
  define k where "k = a - 240"
  from h have a: "a = 8 * 30 + k" and k: "k < 8" by (simp_all add: k_def)
  have m: "(8 * 30 + k) mod 8 = k" using k by (simp only: mod_mult_self4 mod_less)
  show ?thesis unfolding k_def [symmetric] by (subst a) (rule m)
qed

lemma sentinel_two:
  assumes "(a mod 32) * 64 + b mod 64 = 167" "194 \<le> a" "a < 224" "128 \<le> b" "b \<le> 191"
  shows "a = 194 \<and> b = (167::nat)"
proof -
  from assms(1) have "(a - 192) * 64 + (b - 128) = 167"
    by (simp only: window_32 [OF assms(2,3)] window_64 [OF assms(4,5)])
  then show ?thesis using assms(2-5) by arith
qed

lemma sentinel_three:
  assumes "(a mod 16) * 4096 + (b mod 64) * 64 + c mod 64 = 167" "224 \<le> a" "a < 240"
    "a = 224 \<longrightarrow> 160 \<le> b" "128 \<le> b" "b \<le> (191::nat)"
  shows False
proof -
  from assms(1) have "(a - 224) * 4096 + (b - 128) * 64 \<le> 167"
    by (simp only: window_16 [OF assms(2,3)] window_64 [OF assms(5,6)])
  then show ?thesis using assms(2-6) by arith
qed

lemma sentinel_four:
  assumes "(a mod 8) * 262144 + (b mod 64) * 4096 + (c mod 64) * 64 + d mod 64 = 167"
    "240 \<le> a" "a \<le> 244" "a = 240 \<longrightarrow> 144 \<le> b" "128 \<le> b" "b \<le> (191::nat)"
  shows False
proof -
  from assms(1) have "(a - 240) * 262144 + (b - 128) * 4096 \<le> 167"
    by (simp only: window_8 [OF assms(2,3)] window_64 [OF assms(5,6)])
  then show ?thesis using assms(2-6) by arith
qed

lemma or_disjoint_nat:
  assumes "y < 2 ^ n"
  shows "push_bit n x OR y = push_bit n x + (y::nat)"
proof -
  have y: "take_bit n y = y" using assms by (simp add: take_bit_nat_eq_self)
  have "push_bit n x AND take_bit n y = 0"
    by (rule bit_eqI) (auto simp: bit_simps)
  then have "push_bit n x AND y = 0" by (simp add: y)
  then show ?thesis by (simp add: disjunctive_add_eq_or)
qed

lemma and_mask_nat:
  "(x::nat) AND 0x3F = x mod 64" "(x::nat) AND 0x1F = x mod 32"
  "(x::nat) AND 0x0F = x mod 16" "(x::nat) AND 0x07 = x mod 8"
proof -
  have m: "x AND mask n = x mod 2 ^ n" for n
    by (simp only: take_bit_eq_mod flip: take_bit_eq_mask)
  show "x AND 0x3F = x mod 64" using m [of 6] by (simp add: mask_eq_exp_minus_1)
  show "x AND 0x1F = x mod 32" using m [of 5] by (simp add: mask_eq_exp_minus_1)
  show "x AND 0x0F = x mod 16" using m [of 4] by (simp add: mask_eq_exp_minus_1)
  show "x AND 0x07 = x mod 8" using m [of 3] by (simp add: mask_eq_exp_minus_1)
qed

lemma decode2: "push_bit 6 (a AND 0x1F) OR (b AND 0x3F) = (a mod 32) * 64 + b mod (64::nat)"
  using or_disjoint_nat [of "b mod 64" 6 "a mod 32"]
  by (simp add: and_mask_nat push_bit_eq_mult)

lemma decode3:
  "push_bit 12 (a AND 0x0F) OR push_bit 6 (b AND 0x3F) OR (c AND 0x3F)
     = (a mod 16) * 4096 + (b mod 64) * 64 + c mod (64::nat)"
proof -
  have bc: "push_bit 6 (b mod 64) OR c mod 64 = push_bit 6 (b mod 64) + c mod 64"
    by (rule or_disjoint_nat) simp
  have "b mod 64 \<le> 63" "c mod 64 \<le> 63" by simp_all
  then have "push_bit 6 (b mod 64) + c mod 64 < 2 ^ 12"
    by (simp add: push_bit_eq_mult)
  then have abc: "push_bit 12 (a mod 16) OR (push_bit 6 (b mod 64) + c mod 64)
      = push_bit 12 (a mod 16) + (push_bit 6 (b mod 64) + c mod 64)"
    by (rule or_disjoint_nat)
  have "push_bit 12 (a AND 0x0F) OR push_bit 6 (b AND 0x3F) OR (c AND 0x3F)
      = push_bit 12 (a mod 16) OR (push_bit 6 (b mod 64) OR c mod 64)"
    by (simp only: and_mask_nat)
  also have "\<dots> = push_bit 12 (a mod 16) + (push_bit 6 (b mod 64) + c mod 64)"
    by (simp only: bc abc)
  finally show ?thesis by (simp add: push_bit_eq_mult)
qed

lemma decode4:
  "push_bit 18 (a AND 0x07) OR push_bit 12 (b AND 0x3F) OR push_bit 6 (c AND 0x3F) OR (d AND 0x3F)
     = (a mod 8) * 262144 + (b mod 64) * 4096 + (c mod 64) * 64 + d mod (64::nat)"
proof -
  have cd: "push_bit 6 (c mod 64) OR d mod 64 = push_bit 6 (c mod 64) + d mod 64"
    by (rule or_disjoint_nat) simp
  have le: "b mod 64 \<le> 63" "c mod 64 \<le> 63" "d mod 64 \<le> 63" by simp_all
  then have "push_bit 6 (c mod 64) + d mod 64 < 2 ^ 12"
    by (simp add: push_bit_eq_mult)
  then have bcd: "push_bit 12 (b mod 64) OR (push_bit 6 (c mod 64) + d mod 64)
      = push_bit 12 (b mod 64) + (push_bit 6 (c mod 64) + d mod 64)"
    by (rule or_disjoint_nat)
  from le have "push_bit 12 (b mod 64) + (push_bit 6 (c mod 64) + d mod 64) < 2 ^ 18"
    by (simp add: push_bit_eq_mult)
  then have abcd: "push_bit 18 (a mod 8) OR (push_bit 12 (b mod 64) + (push_bit 6 (c mod 64) + d mod 64))
      = push_bit 18 (a mod 8) + (push_bit 12 (b mod 64) + (push_bit 6 (c mod 64) + d mod 64))"
    by (rule or_disjoint_nat)
  have "push_bit 18 (a AND 0x07) OR push_bit 12 (b AND 0x3F) OR push_bit 6 (c AND 0x3F) OR (d AND 0x3F)
      = push_bit 18 (a mod 8) OR (push_bit 12 (b mod 64) OR (push_bit 6 (c mod 64) OR d mod 64))"
    by (simp only: and_mask_nat)
  also have "\<dots> = push_bit 18 (a mod 8) + (push_bit 12 (b mod 64) + (push_bit 6 (c mod 64) + d mod 64))"
    by (simp only: cd bcd abcd)
  finally show ?thesis by (simp add: push_bit_eq_mult)
qed

lemma first_cases:
  "first b = ASCII \<Longrightarrow> b < 128"
  "first b = Lead sz lo hi \<Longrightarrow>
     (sz = 2 \<and> lo = 128 \<and> hi = 191 \<and> 194 \<le> b \<and> b < 224)
     \<or> (sz = 3 \<and> 224 \<le> b \<and> b < 240 \<and> 128 \<le> lo \<and> hi \<le> 191 \<and> (b = 224 \<longrightarrow> lo = 160))
     \<or> (sz = 4 \<and> 240 \<le> b \<and> b \<le> 244 \<and> 128 \<le> lo \<and> hi \<le> 191 \<and> (b = 240 \<longrightarrow> lo = 144))"
  by (auto simp add: first_def split: if_splits)

lemma decode_sentinel:
  assumes "fst (DecodeRuneInString s) = sentinel"
  shows "2 \<le> length s \<and> of_char (s ! 0) = (0xC2::nat) \<and> of_char (s ! 1) = (0xA7::nat)"
proof (cases s)
  case Nil
  with assms show ?thesis by (simp add: DecodeRuneInString_def)
next
  case (Cons c0 rest)
  let ?s0 = "of_char c0 :: nat"
  show ?thesis
  proof (cases "first ?s0")
    case ASCII
    from first_cases(1) [OF this] assms Cons ASCII show ?thesis
      by (simp add: DecodeRuneInString_def)
  next
    case Illegal
    with assms Cons show ?thesis by (simp add: DecodeRuneInString_def)
  next
    case (Lead sz lo hi)
    note D = assms [unfolded Cons]
    from first_cases(2) [OF Lead] consider
      (two) "sz = 2" "lo = 128" "hi = 191" "194 \<le> ?s0" "?s0 < 224"
      | (three) "sz = 3" "224 \<le> ?s0" "?s0 < 240" "128 \<le> lo" "hi \<le> 191" "?s0 = 224 \<longrightarrow> lo = 160"
      | (four) "sz = 4" "240 \<le> ?s0" "?s0 \<le> 244" "128 \<le> lo" "hi \<le> 191" "?s0 = 240 \<longrightarrow> lo = 144"
      by blast
    then show ?thesis
    proof cases
      case two
      let ?s1 = "of_char ((c0 # rest) ! 1) :: nat"
      from D Lead two have len: "2 \<le> length (c0 # rest)" and r1: "128 \<le> ?s1" "?s1 \<le> 191"
        and v: "(?s0 mod 32) * 64 + ?s1 mod 64 = 167"
        by (auto simp add: DecodeRuneInString_def decode2 Let_def Suc_le_eq simp del: push_bit_and
              split: if_splits)
      from sentinel_two [OF v two(4,5) r1] len show ?thesis unfolding Cons by simp
    next
      case three
      let ?s1 = "of_char ((c0 # rest) ! 1) :: nat"
      let ?s2 = "of_char ((c0 # rest) ! 2) :: nat"
      from D Lead three have r1: "lo \<le> ?s1" "?s1 \<le> hi"
        and v: "(?s0 mod 16) * 4096 + (?s1 mod 64) * 64 + ?s2 mod 64 = 167"
        by (auto simp add: DecodeRuneInString_def decode3 Let_def simp del: push_bit_and
              split: if_splits)
      from r1 three have "?s0 = 224 \<longrightarrow> 160 \<le> ?s1" "128 \<le> ?s1" "?s1 \<le> 191" by auto
      from sentinel_three [OF v three(2,3) this] show ?thesis ..
    next
      case four
      let ?s1 = "of_char ((c0 # rest) ! 1) :: nat"
      let ?s2 = "of_char ((c0 # rest) ! 2) :: nat"
      let ?s3 = "of_char ((c0 # rest) ! 3) :: nat"
      from D Lead four have r1: "lo \<le> ?s1" "?s1 \<le> hi"
        and v: "(?s0 mod 8) * 262144 + (?s1 mod 64) * 4096 + (?s2 mod 64) * 64 + ?s3 mod 64 = 167"
        by (auto simp add: DecodeRuneInString_def decode4 Let_def simp del: push_bit_and
              split: if_splits)
      from r1 four have "?s0 = 240 \<longrightarrow> 144 \<le> ?s1" "128 \<le> ?s1" "?s1 \<le> 191" by auto
      from sentinel_four [OF v four(2,3) this] show ?thesis ..
    qed
  qed
qed

lemma rangeString_sentinel:
  "(i, sentinel) \<in> set (rangeString str k) \<Longrightarrow>
   i + 1 < length str \<and> str ! (i + 1) = CHR 0xA7"
proof (induction str k rule: rangeString.induct)
  case (1 s k)
  show ?case
  proof (cases "k < length s")
    case True
    from "1.prems" True have
      "(i, sentinel) = (k, fst (DecodeRuneInString (drop k s)))
       \<or> (i, sentinel) \<in> set (rangeString s (k + snd (DecodeRuneInString (drop k s))))"
      by (subst (asm) rangeString.simps) simp
    then show ?thesis
    proof
      assume "(i, sentinel) = (k, fst (DecodeRuneInString (drop k s)))"
      then have i: "i = k" and d: "fst (DecodeRuneInString (drop k s)) = sentinel" by simp_all
      from decode_sentinel [OF d] have len: "2 \<le> length (drop k s)"
        and b: "of_char (drop k s ! 1) = (0xA7::nat)" by simp_all
      from len have lt: "k + 1 < length s" by simp
      then have "drop k s ! 1 = s ! (k + 1)" by simp
      with b have "(of_char (s ! (k + 1)) :: nat) = of_char (CHR 0xA7)" by simp
      then have "s ! (k + 1) = CHR 0xA7" by (simp only: of_char_eq_iff)
      with lt i show ?thesis by simp
    next
      assume "(i, sentinel) \<in> set (rangeString s (k + snd (DecodeRuneInString (drop k s))))"
      from "1.IH" [OF True this] show ?thesis .
    qed
  next
    case False
    with "1.prems" show ?thesis by (subst (asm) rangeString.simps) simp
  qed
qed

lemma colorMap_second_byte: "colorMap sentinel = None"
  by (simp add: colorMap_def)

lemma foldl_colorStep:
  "(\<And>i. (i, sentinel) \<in> set rs \<Longrightarrow> i + 1 < length text \<and> text ! (i + 1) = CHR 0xA7) \<Longrightarrow>
   foldl (colorStep text) (False, acc) rs
     = (False, acc @ concat (map (\<lambda>(i, r). EncodeRune r) rs))"
proof (induction rs arbitrary: acc)
  case Nil
  then show ?case by simp
next
  case (Cons x rs)
  obtain i r where x: "x = (i, r)" by (cases x)
  have step: "colorStep text (False, acc) (i, r) = (False, acc @ EncodeRune r)"
  proof (cases "r = sentinel \<and> i + 1 < length text")
    case True
    with Cons.prems [of i] x have "text ! (i + 1) = CHR 0xA7" by simp
    then show ?thesis using True by (simp add: colorStep_def colorMap_second_byte)
  next
    case False
    then show ?thesis by (auto simp add: colorStep_def)
  qed
  have "foldl (colorStep text) (False, acc @ EncodeRune r) rs
     = (False, (acc @ EncodeRune r) @ concat (map (\<lambda>(i, r). EncodeRune r) rs))"
    using Cons.prems by (intro Cons.IH) simp
  then show ?case by (simp add: x step)
qed

lemma never_coloured:
  "processColorCodes s False
     = concat (map (\<lambda>(i, r). EncodeRune r) (rangeString s 0)) @ esc ''[0m''"
  using foldl_colorStep [of "rangeString s 0" s "[]"] rangeString_sentinel [of _ s 0]
  by (simp add: processColorCodes_def)

subsection \<open>The example world\<close>

lemmas example_defs = exampleConsts_def exampleSession_def exampleConfig_def exampleWorld_def
  refusingWorld_def freshExecutor_def exampleFlags_def

lemma example_dial: "fst (Dial exampleWorld exampleConsts exampleSession freshExecutor) = None"
  by (simp add: example_defs Dial_def Let_def dialer_def)

lemma example_dial_skip:
  "fst (Dial exampleWorld exampleConsts (exampleSession\<lparr>SkipErrors := True\<rparr>) freshExecutor) = None"
  by (simp add: example_defs Dial_def Let_def dialer_def)

lemma allSpace_blank: "allSpace '' ''"
  by (simp add: allSpace_def rangeString.simps DecodeRuneInString_def first_def IsSpace_def)

section \<open>The claims\<close>

subsection \<open>C1: colouring\<close>

text \<open>
  Claim C1 says that \<^verbatim>\<open>processColorCodes\<close> with \<^verbatim>\<open>stripColors = false\<close> replaces the
  sentinel followed by a code character by the ANSI escape of that code. The code does
  not: on the text made of the sentinel and the code \<^verbatim>\<open>a\<close> (the bytes \<^verbatim>\<open>C2 A7 61\<close>), whose
  code is in \<^verbatim>\<open>colorMap\<close> with the escape \<^verbatim>\<open>ESC[92m\<close>, the result is the text itself followed
  by the reset escape, and not \<^verbatim>\<open>ESC[92m\<close> followed by the reset escape. The sentinel takes
  two bytes, so \<^verbatim>\<open>text[i+1]\<close> is its own second byte \<^verbatim>\<open>A7\<close> and never the code character;
  the lookup in \<^verbatim>\<open>colorMap\<close> fails. So it is on every text \<open>s\<close>: the result is the runes
  of \<open>s\<close>, each written back as it was read, followed by the reset escape, which is
  appended in every case.
\<close>

theorem colour_pair_kept:
  "processColorCodes [CHR 0xC2, CHR 0xA7, CHR ''a''] False
     = [CHR 0xC2, CHR 0xA7, CHR ''a''] @ esc ''[0m''
   \<and> colorMap (rune_of_byte CHR ''a'') = Some (esc ''[92m'')
   \<and> processColorCodes [CHR 0xC2, CHR 0xA7, CHR ''a''] False \<noteq> esc ''[92m'' @ esc ''[0m''
   \<and> processColorCodes s False
       = concat (map (\<lambda>(i, r). EncodeRune r) (rangeString s 0)) @ esc ''[0m''"
proof (intro conjI)
  show "processColorCodes [CHR 0xC2, CHR 0xA7, CHR ''a''] False
     = [CHR 0xC2, CHR 0xA7, CHR ''a''] @ esc ''[0m''"
    by (simp add: processColorCodes_def rangeString.simps DecodeRuneInString_def first_def
          colorStep_def colorMap_def EncodeRune_def esc_def char_of_def)
  show "colorMap (rune_of_byte CHR ''a'') = Some (esc ''[92m'')"
    by (simp add: colorMap_def esc_def)
  show "processColorCodes [CHR 0xC2, CHR 0xA7, CHR ''a''] False \<noteq> esc ''[92m'' @ esc ''[0m''"
    by (simp add: processColorCodes_def rangeString.simps DecodeRuneInString_def first_def
          colorStep_def colorMap_def EncodeRune_def esc_def char_of_def)
  show "processColorCodes s False
       = concat (map (\<lambda>(i, r). EncodeRune r) (rangeString s 0)) @ esc ''[0m''"
    by (rule never_coloured)
qed

subsection \<open>C2: flags over the config file\<close>

text \<open>
  Claim C2, as it is stated, fails when the flags give both the address and the password:
  \<^verbatim>\<open>NewSession\<close> then returns before it loads the config file, and a log path that the
  flags left empty stays empty although the chosen environment has one.
\<close>

theorem NewSession_config_ignored:
  "flag_log exampleFlags = []
   \<and> NewConfig exampleWorld (flag_config exampleFlags) = Inr exampleConfig
   \<and> Log (lookupEnv exampleConfig (chosenEnv exampleConsts exampleFlags)) = ''rcon.log''
   \<and> Log (snd (NewSession exampleWorld exampleConsts exampleFlags)) = []"
  by (simp add: example_defs NewSession_def Let_def lookupEnv_def chosenEnv_def)

text \<open>
  Claim C2, amended. For each of the fields address, password, log and protocol type, a
  value given by flag is the value of the session. When the flags give both the address
  and the password, the session is made of the flag values alone and the config file is
  not read. Otherwise, when the config file loads, \<^verbatim>\<open>NewSession\<close> returns no error and
  every one of the four fields that the flags left empty has the value of the chosen
  environment (the zero value when the file has no such environment).
\<close>

theorem NewSession_merge:
  "(flag_address c \<noteq> [] \<longrightarrow> Address (snd (NewSession W K c)) = flag_address c)
   \<and> (flag_password c \<noteq> [] \<longrightarrow> Password (snd (NewSession W K c)) = flag_password c)
   \<and> (flag_log c \<noteq> [] \<longrightarrow> Log (snd (NewSession W K c)) = flag_log c)
   \<and> (flag_type c \<noteq> [] \<longrightarrow> Type (snd (NewSession W K c)) = flag_type c)
   \<and> (flag_address c \<noteq> [] \<and> flag_password c \<noteq> [] \<longrightarrow>
        NewSession W K c = (None, flagSession c))
   \<and> ((flag_address c = [] \<or> flag_password c = [])
        \<and> NewConfig W (flag_config c) = Inr cfg \<longrightarrow>
          fst (NewSession W K c) = None
        \<and> (flag_address c = [] \<longrightarrow>
             Address (snd (NewSession W K c)) = Address (lookupEnv cfg (chosenEnv K c)))
        \<and> (flag_password c = [] \<longrightarrow>
             Password (snd (NewSession W K c)) = Password (lookupEnv cfg (chosenEnv K c)))
        \<and> (flag_log c = [] \<longrightarrow>
             Log (snd (NewSession W K c)) = Log (lookupEnv cfg (chosenEnv K c)))
        \<and> (flag_type c = [] \<longrightarrow>
             Type (snd (NewSession W K c)) = Type (lookupEnv cfg (chosenEnv K c))))"
  by (cases "NewConfig W (flag_config c)")
     (simp_all add: NewSession_def Let_def flagSession_def chosenEnv_def)

text \<open>
  The amended claim C2 at the example flags, which give the address and the password,
  and at the same flags without the password and the protocol type.
\<close>

theorem NewSession_merge_witness:
  "Address (snd (NewSession exampleWorld exampleConsts exampleFlags)) = flag_address exampleFlags
   \<and> NewSession exampleWorld exampleConsts exampleFlags = (None, flagSession exampleFlags)
   \<and> fst (NewSession exampleWorld exampleConsts (exampleFlags\<lparr>flag_password := [], flag_type := []\<rparr>)) = None
   \<and> Log (snd (NewSession exampleWorld exampleConsts (exampleFlags\<lparr>flag_password := [], flag_type := []\<rparr>)))
       = Log (lookupEnv exampleConfig (chosenEnv exampleConsts (exampleFlags\<lparr>flag_password := [], flag_type := []\<rparr>)))
   \<and> Log (lookupEnv exampleConfig (chosenEnv exampleConsts (exampleFlags\<lparr>flag_password := [], flag_type := []\<rparr>)))
       = ''rcon.log''"
proof -
  let ?c = "exampleFlags\<lparr>flag_password := [], flag_type := []\<rparr>"
  have a1: "flag_address exampleFlags \<noteq> []" by (simp add: example_defs)
  have a: "flag_address exampleFlags \<noteq> [] \<and> flag_password exampleFlags \<noteq> []"
    by (simp add: example_defs)
  have b: "(flag_address ?c = [] \<or> flag_password ?c = [])
        \<and> NewConfig exampleWorld (flag_config ?c) = Inr exampleConfig"
    by (simp add: example_defs)
  have e: "Log (lookupEnv exampleConfig (chosenEnv exampleConsts ?c)) = ''rcon.log''"
    by (simp add: example_defs lookupEnv_def chosenEnv_def)
  have f: "flag_log ?c = []" by (simp add: example_defs)
  note T1 = NewSession_merge [of exampleFlags exampleWorld exampleConsts exampleConfig]
  note T2 = NewSession_merge [of ?c exampleWorld exampleConsts exampleConfig]
  note w1 = T1 [THEN conjunct1, THEN mp, OF a1]
  note w5 = T1 [THEN conjunct2, THEN conjunct2, THEN conjunct2, THEN conjunct2, THEN conjunct1,
    THEN mp, OF a]
  note w6 = T2 [THEN conjunct2, THEN conjunct2, THEN conjunct2, THEN conjunct2, THEN conjunct2,
    THEN mp, OF b]
  note w7 = w6 [THEN conjunct2, THEN conjunct2, THEN conjunct2, THEN conjunct1, THEN mp, OF f]
  from w1 w5 w6 [THEN conjunct1] w7 e show ?thesis by (intro conjI)
qed

subsection \<open>C3: skip-errors\<close>

text \<open>
  Claim C3. Take a batch of three commands, none of them empty, on a connection that
  \<^verbatim>\<open>Dial\<close> establishes or finds, and let the remote answer the second command with an
  error \<open>e\<close>. With skip-errors enabled, \<^verbatim>\<open>Execute\<close> returns no error, the three commands
  are sent in order, the logger is called for each of them, and the line
  \<^verbatim>\<open>execute: \<close> followed by the message of \<open>e\<close> is written to the output. With skip-errors
  disabled and a first command that the remote does not fail, \<^verbatim>\<open>Execute\<close> returns \<open>e\<close>
  wrapped with the tag \<^verbatim>\<open>execute\<close>, and only the first two commands are sent.
\<close>

theorem Execute_skip_errors:
  assumes dial: "fst (Dial W K ses ex) = None"
    and ne: "c1 \<noteq> []" "c2 \<noteq> []" "c3 \<noteq> []"
    and fails: "snd (exec_result W (sent (trace ex) @ [c1]) c2) = Some e"
  shows "(SkipErrors ses \<longrightarrow>
            fst (Execute W K ses [c1, c2, c3] ex) = None
          \<and> sent (trace (snd (Execute W K ses [c1, c2, c3] ex))) = sent (trace ex) @ [c1, c2, c3]
          \<and> logged (trace (snd (Execute W K ses [c1, c2, c3] ex)))
              = logged (trace ex) @ [c1, c2, c3]
          \<and> Write (''execute: '' @ errorString e @ [CHR 0x0A])
              \<in> set (drop (length (trace ex)) (trace (snd (Execute W K ses [c1, c2, c3] ex)))))
       \<and> (\<not> SkipErrors ses \<and> snd (exec_result W (sent (trace ex)) c1) = None \<longrightarrow>
            fst (Execute W K ses [c1, c2, c3] ex) = Some (Wrapped ''execute'' e)
          \<and> errorString (Wrapped ''execute'' e) = ''execute: '' @ errorString e
          \<and> sent (trace (snd (Execute W K ses [c1, c2, c3] ex))) = sent (trace ex) @ [c1, c2])"
proof -
  let ?ex0 = "snd (Dial W K ses ex)"
  let ?cs = "[c1, c2, c3]"
  let ?line = "Write (''execute: '' @ errorString e @ [CHR 0x0A])"
  have cs: "?cs \<noteq> []" by simp
  note E = Execute_connected [OF cs dial]
  from Dial_ok_client [OF dial] obtain p where p0: "client ?ex0 = Some p" by auto
  obtain r1 ex1 where ex1: "execute W ses c1 ?ex0 = (r1, ex1)" by (cases "execute W ses c1 ?ex0")
  have cl1: "client ex1 = Some p" using execute_client [of W ses c1 ?ex0] ex1 p0 by simp
  have s1: "sent (trace ex1) = sent (trace ex) @ [c1]"
    using execute_sent [OF ne(1) p0, of W ses] ex1 by simp
  let ?ex1' = "Fprintln CommandsResponseSeparator ex1"
  have cl1': "client ?ex1' = Some p" using cl1 by simp
  have s1': "sent (trace ?ex1') = sent (trace ex) @ [c1]" using s1 by simp
  obtain r2 ex2 where ex2: "execute W ses c2 ?ex1' = (r2, ex2)" by (cases "execute W ses c2 ?ex1'")
  have f2: "snd (exec_result W (sent (trace ?ex1')) c2) = Some e" using fails s1' by simp
  have r2: "r2 = (if SkipErrors ses then None else Some (Wrapped ''execute'' e))"
    using execute_fst [OF ne(2) cl1', of W ses] ex2 f2 by simp
  have s2: "sent (trace ex2) = sent (trace ex) @ [c1, c2]"
    using execute_sent [OF ne(2) cl1', of W ses] ex2 s1' by simp
  have skip: "fst (Execute W K ses ?cs ex) = None
          \<and> sent (trace (snd (Execute W K ses ?cs ex))) = sent (trace ex) @ ?cs
          \<and> logged (trace (snd (Execute W K ses ?cs ex))) = logged (trace ex) @ ?cs
          \<and> ?line \<in> set (drop (length (trace ex)) (trace (snd (Execute W K ses ?cs ex))))"
    if sk: "SkipErrors ses"
  proof -
    have c0: "client ?ex0 \<noteq> None" using p0 by simp
    have "[] \<notin> set ?cs" using ne by auto
    from executeLoop_skip_ok [OF sk c0 this]
    have l: "fst (executeLoop W ses ?cs ?ex0) = None" .
    from executeLoop_ok [OF c0 l]
    have sl: "sent (trace (snd (executeLoop W ses ?cs ?ex0))) = sent (trace ex) @ ?cs"
      "logged (trace (snd (executeLoop W ses ?cs ?ex0))) = logged (trace ex) @ ?cs"
      by simp_all
    have r1: "r1 = None"
      using execute_fst [OF ne(1) p0, of W ses] ex1 sk by (simp split: option.splits)
    from Dial_grows [of W K ses ex] obtain evs0 where g0: "trace ?ex0 = trace ex @ evs0" by blast
    from execute_grows [of W ses c1 ?ex0] ex1 obtain evs1 where g1: "trace ex1 = trace ?ex0 @ evs1"
      by auto
    from execute_error_line [OF ne(2) cl1' f2 sk] ex2 obtain pre post where
      g2: "trace ex2 = trace ?ex1' @ pre @ Write (errorString (Wrapped ''execute'' e) @ [CHR 0x0A]) # post"
      by auto
    let ?ex2' = "Fprintln CommandsResponseSeparator ex2"
    from executeLoop_grows [of W ses "[c3]" ?ex2'] obtain evs3 where
      g3: "trace (snd (executeLoop W ses [c3] ?ex2')) = trace ?ex2' @ evs3" by blast
    have unroll: "executeLoop W ses ?cs ?ex0 = executeLoop W ses [c3] ?ex2'"
      using ex1 r1 ex2 r2 sk by simp
    from deferredClose_grows [of "snd (executeLoop W ses ?cs ?ex0)"] obtain evs4 where
      g4: "trace (deferredClose (snd (executeLoop W ses ?cs ?ex0)))
             = trace (snd (executeLoop W ses ?cs ?ex0)) @ evs4" by blast
    have tl: "trace (snd (executeLoop W ses ?cs ?ex0))
          = trace ex @ (evs0 @ evs1 @ Write (CommandsResponseSeparator @ [CHR 0x0A]) # pre)
              @ ?line # (post @ Write (CommandsResponseSeparator @ [CHR 0x0A]) # evs3)"
      by (simp add: unroll g3 g2 g1 g0 del: executeLoop.simps)
    have "\<exists>A B. trace (snd (Execute W K ses ?cs ex)) = trace ex @ A @ ?line # B"
    proof (cases "Type ses = ProtocolWebRCON K")
      case True
      then have "trace (snd (Execute W K ses ?cs ex))
          = trace (snd (executeLoop W ses ?cs ?ex0)) @ evs4"
        using g4 by (simp add: E del: executeLoop.simps)
      then have "trace (snd (Execute W K ses ?cs ex))
          = trace ex @ (evs0 @ evs1 @ Write (CommandsResponseSeparator @ [CHR 0x0A]) # pre)
              @ ?line # (post @ Write (CommandsResponseSeparator @ [CHR 0x0A]) # evs3 @ evs4)"
        by (simp only: tl) simp
      then show ?thesis by blast
    next
      case False
      then have "trace (snd (Execute W K ses ?cs ex)) = trace (snd (executeLoop W ses ?cs ?ex0))"
        by (simp add: E del: executeLoop.simps)
      then show ?thesis using tl by metis
    qed
    then obtain A B where "trace (snd (Execute W K ses ?cs ex)) = trace ex @ A @ ?line # B"
      by blast
    then have "?line \<in> set (drop (length (trace ex)) (trace (snd (Execute W K ses ?cs ex))))"
      by simp
    then show ?thesis using l sl by (simp add: E del: executeLoop.simps)
  qed
  have strict: "fst (Execute W K ses ?cs ex) = Some (Wrapped ''execute'' e)
          \<and> errorString (Wrapped ''execute'' e) = ''execute: '' @ errorString e
          \<and> sent (trace (snd (Execute W K ses ?cs ex))) = sent (trace ex) @ [c1, c2]"
    if nsk: "\<not> SkipErrors ses" and ok1: "snd (exec_result W (sent (trace ex)) c1) = None"
  proof -
    have r1: "r1 = None"
      using execute_fst [OF ne(1) p0, of W ses] ex1 ok1 by simp
    have "executeLoop W ses ?cs ?ex0 = (Some (Wrapped ''execute'' e), ex2)"
      using ex1 r1 ex2 r2 nsk by simp
    then show ?thesis using s2 by (simp add: E)
  qed
  show ?thesis using skip strict by blast
qed

text \<open>
  Claim C3 at the batch \<^verbatim>\<open>say hi\<close>, \<^verbatim>\<open>bad\<close>, \<^verbatim>\<open>list\<close> in the example world, with skip-errors
  enabled and disabled.
\<close>

theorem Execute_skip_errors_witness:
  "fst (Execute exampleWorld exampleConsts (exampleSession\<lparr>SkipErrors := True\<rparr>)
          [''say hi'', ''bad'', ''list''] freshExecutor) = None
   \<and> sent (trace (snd (Execute exampleWorld exampleConsts (exampleSession\<lparr>SkipErrors := True\<rparr>)
          [''say hi'', ''bad'', ''list''] freshExecutor)))
       = sent (trace freshExecutor) @ [''say hi'', ''bad'', ''list'']
   \<and> fst (Execute exampleWorld exampleConsts exampleSession
          [''say hi'', ''bad'', ''list''] freshExecutor)
       = Some (Wrapped ''execute'' (Foreign ''unknown command''))
   \<and> sent (trace (snd (Execute exampleWorld exampleConsts exampleSession
          [''say hi'', ''bad'', ''list''] freshExecutor)))
       = sent (trace freshExecutor) @ [''say hi'', ''bad'']"
proof -
  have ne: "''say hi'' \<noteq> []" "''bad'' \<noteq> []" "''list'' \<noteq> []" by simp_all
  have fails: "snd (exec_result exampleWorld (sent (trace freshExecutor) @ [''say hi'']) ''bad'')
                 = Some (Foreign ''unknown command'')"
    by (simp add: example_defs)
  have ok1: "snd (exec_result exampleWorld (sent (trace freshExecutor)) ''say hi'') = None"
    by (simp add: example_defs)
  have sk: "SkipErrors (exampleSession\<lparr>SkipErrors := True\<rparr>)" by simp
  have nsk: "\<not> SkipErrors exampleSession" by (simp add: example_defs)
  from Execute_skip_errors [OF example_dial_skip ne fails]
    Execute_skip_errors [OF example_dial ne fails]
  show ?thesis using ok1 sk nsk by blast
qed

subsection \<open>C4: an empty command\<close>

text \<open>
  Claim C4. On the empty command \<^verbatim>\<open>execute\<close> returns \<^verbatim>\<open>ErrCommandEmpty\<close> and does nothing
  else, whatever the session says about skip-errors. A batch that holds an empty command
  never succeeds, and nobody sends the empty command or a command behind it: the
  commands sent are among those before the first empty one, in order. When the batch
  reaches its first empty command, it aborts there: on an established connection, with
  skip-errors enabled, or with skip-errors disabled and no error in the answers to the
  commands before the first empty one, \<^verbatim>\<open>Execute\<close> sends exactly the commands before the
  first empty one and returns \<^verbatim>\<open>ErrCommandEmpty\<close>.
\<close>

theorem Execute_empty_command:
  "execute W ses [] ex = (Some ErrCommandEmpty, ex)
   \<and> ([] \<in> set commands \<longrightarrow>
        fst (Execute W K ses commands ex) \<noteq> None
        \<and> (\<exists>k. sent (trace (snd (Execute W K ses commands ex)))
                 = sent (trace ex) @ take k (takeWhile (\<lambda>c. c \<noteq> []) commands)))
   \<and> ([] \<in> set commands \<and> fst (Dial W K ses ex) = None
        \<and> (SkipErrors ses
            \<or> noneFails W (sent (trace ex)) (takeWhile (\<lambda>c. c \<noteq> []) commands)) \<longrightarrow>
        fst (Execute W K ses commands ex) = Some ErrCommandEmpty
        \<and> sent (trace (snd (Execute W K ses commands ex)))
            = sent (trace ex) @ takeWhile (\<lambda>c. c \<noteq> []) commands)"
proof -
  have general: "fst (Execute W K ses commands ex) \<noteq> None
        \<and> (\<exists>k. sent (trace (snd (Execute W K ses commands ex)))
                 = sent (trace ex) @ take k (takeWhile (\<lambda>c. c \<noteq> []) commands))"
    if mem: "[] \<in> set commands"
  proof (cases "fst (Dial W K ses ex)")
    case None
    from mem have ne: "commands \<noteq> []" by auto
    note E = Execute_connected [OF ne None]
    from executeLoop_sent_prefix [of W ses commands "snd (Dial W K ses ex)"]
    obtain k where "sent (trace (snd (executeLoop W ses commands (snd (Dial W K ses ex)))))
         = sent (trace ex) @ take k (takeWhile (\<lambda>c. c \<noteq> []) commands)"
      by auto
    then have "sent (trace (snd (Execute W K ses commands ex)))
         = sent (trace ex) @ take k (takeWhile (\<lambda>c. c \<noteq> []) commands)"
      by (simp add: E)
    moreover have "fst (Execute W K ses commands ex) \<noteq> None"
      using executeLoop_empty_fails [OF mem, of W ses "snd (Dial W K ses ex)"] by (simp add: E)
    ultimately show ?thesis by blast
  next
    case (Some e)
    from mem have ne: "commands \<noteq> []" by auto
    from Execute_dial_failed [OF ne Some]
    have "fst (Execute W K ses commands ex) \<noteq> None"
      and "sent (trace (snd (Execute W K ses commands ex)))
             = sent (trace ex) @ take 0 (takeWhile (\<lambda>c. c \<noteq> []) commands)"
      by simp_all
    then show ?thesis by blast
  qed
  have reached: "fst (Execute W K ses commands ex) = Some ErrCommandEmpty
        \<and> sent (trace (snd (Execute W K ses commands ex)))
            = sent (trace ex) @ takeWhile (\<lambda>c. c \<noteq> []) commands"
    if mem: "[] \<in> set commands" and d: "fst (Dial W K ses ex) = None"
      and ok: "SkipErrors ses
            \<or> noneFails W (sent (trace ex)) (takeWhile (\<lambda>c. c \<noteq> []) commands)"
  proof -
    from mem have ne: "commands \<noteq> []" by auto
    note E = Execute_connected [OF ne d]
    from ok have ok1: "SkipErrors ses
        \<or> noneFails W (sent (trace (snd (Dial W K ses ex)))) (takeWhile (\<lambda>c. c \<noteq> []) commands)"
      by simp
    from executeLoop_reaches_empty [OF Dial_ok_client [OF d] mem ok1]
    show ?thesis by (simp add: E)
  qed
  show ?thesis using general reached by (simp add: execute_empty)
qed

text \<open>
  Claim C4 in the example world: with skip-errors enabled, at the batch \<^verbatim>\<open>bad\<close>, the
  empty command, \<^verbatim>\<open>say hi\<close>, where the server answers \<^verbatim>\<open>bad\<close> with an error; and with
  skip-errors disabled, at the batch \<^verbatim>\<open>list\<close>, the empty command, \<^verbatim>\<open>say hi\<close>.
\<close>

theorem Execute_empty_command_witness:
  "fst (Execute exampleWorld exampleConsts (exampleSession\<lparr>SkipErrors := True\<rparr>)
          [''bad'', [], ''say hi''] freshExecutor) = Some ErrCommandEmpty
   \<and> sent (trace (snd (Execute exampleWorld exampleConsts (exampleSession\<lparr>SkipErrors := True\<rparr>)
          [''bad'', [], ''say hi''] freshExecutor))) = [''bad'']
   \<and> SkipErrors exampleSession = False
   \<and> fst (Execute exampleWorld exampleConsts exampleSession
          [''list'', [], ''say hi''] freshExecutor) = Some ErrCommandEmpty
   \<and> sent (trace (snd (Execute exampleWorld exampleConsts exampleSession
          [''list'', [], ''say hi''] freshExecutor))) = [''list'']"
proof -
  have sk: "SkipErrors (exampleSession\<lparr>SkipErrors := True\<rparr>)" by simp
  have nsk: "SkipErrors exampleSession = False" by (simp add: example_defs)
  have mem1: "[] \<in> set [''bad'', [], ''say hi'']" by simp
  have mem2: "[] \<in> set [''list'', [], ''say hi'']" by simp
  have pre1: "takeWhile (\<lambda>c. c \<noteq> []) [''bad'', [], ''say hi''] = [''bad'']" by simp
  have pre2: "takeWhile (\<lambda>c. c \<noteq> []) [''list'', [], ''say hi''] = [''list'']" by simp
  have fresh: "sent (trace freshExecutor) = []" by (simp add: example_defs)
  have ok: "noneFails exampleWorld (sent (trace freshExecutor))
      (takeWhile (\<lambda>c. c \<noteq> []) [''list'', [], ''say hi''])"
    by (simp add: example_defs)
  from Execute_empty_command [of exampleWorld "exampleSession\<lparr>SkipErrors := True\<rparr>" freshExecutor
      "[''bad'', [], ''say hi'']" exampleConsts, THEN conjunct2, THEN conjunct2, THEN mp,
      OF conjI [OF mem1 conjI [OF example_dial_skip disjI1 [OF sk]]]]
  have a: "fst (Execute exampleWorld exampleConsts (exampleSession\<lparr>SkipErrors := True\<rparr>)
          [''bad'', [], ''say hi''] freshExecutor) = Some ErrCommandEmpty
   \<and> sent (trace (snd (Execute exampleWorld exampleConsts (exampleSession\<lparr>SkipErrors := True\<rparr>)
          [''bad'', [], ''say hi''] freshExecutor))) = [''bad'']"
    unfolding pre1 fresh by simp
  from Execute_empty_command [of exampleWorld exampleSession freshExecutor
      "[''list'', [], ''say hi'']" exampleConsts, THEN conjunct2, THEN conjunct2, THEN mp,
      OF conjI [OF mem2 conjI [OF example_dial disjI2 [OF ok]]]]
  have b: "fst (Execute exampleWorld exampleConsts exampleSession
          [''list'', [], ''say hi''] freshExecutor) = Some ErrCommandEmpty
   \<and> sent (trace (snd (Execute exampleWorld exampleConsts exampleSession
          [''list'', [], ''say hi''] freshExecutor))) = [''list'']"
    unfolding pre2 fresh by simp
  from a nsk b show ?thesis by (intro conjI) (elim conjE, assumption)+
qed

subsection \<open>C5: no commands\<close>

text \<open>
  Claim C5. \<^verbatim>\<open>Execute\<close> on the empty list of commands returns \<^verbatim>\<open>ErrCommandEmpty\<close>, whose
  message is \<^verbatim>\<open>command is not set\<close>, and hands back the executor as it was: the same
  connection handle and the same trace, so nothing was dialled, sent, written or logged.
\<close>

theorem Execute_no_commands:
  "Execute W K ses [] ex = (Some ErrCommandEmpty, ex)
   \<and> errorString ErrCommandEmpty = ''command is not set''"
  by (simp add: Execute_def)

subsection \<open>C6: the separator line\<close>

text \<open>
  Claim C6, as it is stated, fails on a batch that a command aborts: in the example world
  the batch \<^verbatim>\<open>bad\<close>, \<^verbatim>\<open>list\<close> with skip-errors disabled returns the error of \<^verbatim>\<open>bad\<close>, the
  command \<^verbatim>\<open>list\<close> is never sent, and the separator line is not written once.
\<close>

theorem Execute_aborted_batch:
  "fst (Execute exampleWorld exampleConsts exampleSession [''bad'', ''list''] freshExecutor)
     = Some (Wrapped ''execute'' (Foreign ''unknown command''))
   \<and> sent (trace (snd (Execute exampleWorld exampleConsts exampleSession [''bad'', ''list''] freshExecutor)))
       = [''bad'']
   \<and> length (filter (\<lambda>e. e = separatorLine)
        (trace (snd (Execute exampleWorld exampleConsts exampleSession [''bad'', ''list''] freshExecutor))))
       \<noteq> length [''bad'', ''list''] - 1"
  by (simp add: example_defs Execute_def Dial_def dialer_def Let_def execute_def printResult_def
        separatorLine_def)

text \<open>
  Claim C6, amended. When \<^verbatim>\<open>Execute\<close> returns no error on a list of \<open>n > 0\<close> commands, the
  commands are sent in the order of the list; among the commands sent and the separator
  lines, one separator line stands between every two successive commands and nowhere
  else; the separator line is written exactly \<open>n - 1\<close> times; and the trace is, after the
  events of \<^verbatim>\<open>Dial\<close>, one block of events for each command, in order, with one separator
  line between successive blocks, followed by the close of the connection when the
  protocol is \<^verbatim>\<open>ProtocolWebRCON\<close>.
\<close>

theorem Execute_separators:
  assumes "commands \<noteq> []" and "fst (Execute W K ses commands ex) = None"
  shows "sent (trace (snd (Execute W K ses commands ex))) = sent (trace ex) @ commands
    \<and> filter mark (trace (snd (Execute W K ses commands ex)))
        = filter mark (trace ex) @ between separatorLine (map Send commands)
    \<and> length (filter (\<lambda>e. e = separatorLine) (trace (snd (Execute W K ses commands ex))))
        = length (filter (\<lambda>e. e = separatorLine) (trace ex)) + (length commands - 1)
    \<and> (\<exists>blocks. list_all2 block_of commands blocks
          \<and> trace (snd (Execute W K ses commands ex))
              = trace (snd (Dial W K ses ex)) @ concat (between [separatorLine] blocks)
                  @ (if Type ses = ProtocolWebRCON K then [CloseConn] else []))"
proof -
  let ?ex0 = "snd (Dial W K ses ex)"
  let ?loop = "executeLoop W ses commands ?ex0"
  let ?ex' = "snd (Execute W K ses commands ex)"
  from Execute_ok_parts [OF assms]
  have d: "fst (Dial W K ses ex) = None" and l: "fst ?loop = None" by simp_all
  have c0: "client ?ex0 \<noteq> None" using Dial_ok_client [OF d] .
  have cl: "client (snd ?loop) \<noteq> None" using c0 by (simp add: executeLoop_client)
  note E = Execute_connected [OF assms(1) d]
  from executeLoop_ok [OF c0 l]
  have s: "sent (trace (snd ?loop)) = sent (trace ex) @ commands"
    and m: "filter mark (trace (snd ?loop))
              = filter mark (trace ex) @ between separatorLine (map Send commands)"
    by simp_all
  have s': "sent (trace ?ex') = sent (trace ex) @ commands"
    using s by (simp add: E)
  have m': "filter mark (trace ?ex')
              = filter mark (trace ex) @ between separatorLine (map Send commands)"
    using m by (simp add: E)
  have "separatorLine \<notin> set (map Send commands)"
    by (auto simp: separatorLine_def)
  from count_between [OF this]
  have "length (filter (\<lambda>e. e = separatorLine) (filter mark (trace ?ex')))
      = length (filter (\<lambda>e. e = separatorLine) (filter mark (trace ex))) + (length commands - 1)"
    unfolding m' by simp
  then have n: "length (filter (\<lambda>e. e = separatorLine) (trace ?ex'))
      = length (filter (\<lambda>e. e = separatorLine) (trace ex)) + (length commands - 1)"
    by (simp only: separators_marks)
  from executeLoop_blocks [OF c0 l] obtain blocks where
    b: "list_all2 block_of commands blocks"
       "trace (snd ?loop) = trace ?ex0 @ concat (between [separatorLine] blocks)"
    by blast
  have "trace ?ex' = trace ?ex0 @ concat (between [separatorLine] blocks)
                  @ (if Type ses = ProtocolWebRCON K then [CloseConn] else [])"
    using b(2) deferredClose_trace [OF cl] by (simp add: E)
  with b(1) have "\<exists>blocks. list_all2 block_of commands blocks
          \<and> trace ?ex' = trace ?ex0 @ concat (between [separatorLine] blocks)
                  @ (if Type ses = ProtocolWebRCON K then [CloseConn] else [])"
    by blast
  with s' m' n show ?thesis by blast
qed

text \<open>
  The amended claim C6 at the batch \<^verbatim>\<open>say hi\<close>, \<^verbatim>\<open>list\<close> of the specification's scenario.
\<close>

theorem Execute_separators_witness:
  "sent (trace (snd (Execute exampleWorld exampleConsts exampleSession [''say hi'', ''list''] freshExecutor)))
     = sent (trace freshExecutor) @ [''say hi'', ''list'']
   \<and> length (filter (\<lambda>e. e = separatorLine)
        (trace (snd (Execute exampleWorld exampleConsts exampleSession [''say hi'', ''list''] freshExecutor))))
     = length (filter (\<lambda>e. e = separatorLine) (trace freshExecutor)) + (length [''say hi'', ''list''] - 1)"
proof -
  have a: "[''say hi'', ''list''] \<noteq> []" by simp
  have ok: "fst (executeLoop exampleWorld exampleSession [''say hi'', ''list'']
               (snd (Dial exampleWorld exampleConsts exampleSession freshExecutor))) = None"
    by (rule executeLoop_all_ok) (auto simp add: example_defs Dial_def Let_def dialer_def)
  have nw: "Type exampleSession \<noteq> ProtocolWebRCON exampleConsts"
    by (simp add: example_defs)
  have b: "fst (Execute exampleWorld exampleConsts exampleSession [''say hi'', ''list''] freshExecutor) = None"
    using ok nw by (simp add: Execute_connected [OF a example_dial] del: executeLoop.simps)
  from Execute_separators [OF a b] show ?thesis by blast
qed

subsection \<open>C7: one connection\<close>

text \<open>
  Claim C7. The handle holds at most one connection. When it holds one, \<^verbatim>\<open>Dial\<close> returns
  no error and changes nothing. When it holds none and \<^verbatim>\<open>Dial\<close> succeeds, a second \<^verbatim>\<open>Dial\<close>
  returns no error and changes nothing, so that the two calls connect exactly once. When
  \<^verbatim>\<open>Dial\<close> fails, the handle holds no connection afterwards and the error returned is the
  error of the connect wrapped with the tag \<^verbatim>\<open>auth\<close>.
\<close>

theorem Dial_one_connection:
  "(client ex \<noteq> None \<longrightarrow> Dial W K ses ex = (None, ex))
   \<and> (client ex = None \<and> fst (Dial W K ses ex) = None \<longrightarrow>
        Dial W K ses (snd (Dial W K ses ex)) = (None, snd (Dial W K ses ex))
        \<and> connects (trace (snd (Dial W K ses (snd (Dial W K ses ex)))))
            = connects (trace ex) + 1)
   \<and> (fst (Dial W K ses ex) \<noteq> None \<longrightarrow>
        client (snd (Dial W K ses ex)) = None
        \<and> (\<exists>e. dial_result W (trace ex) (dialer K ses) (Address ses) (Password ses)
                   (Timeout ses) = Some e
                \<and> fst (Dial W K ses ex) = Some (Wrapped ''auth'' e)
                \<and> errorString (Wrapped ''auth'' e) = ''auth: '' @ errorString e))"
proof (cases "client ex")
  case None
  show ?thesis
    by (cases "dial_result W (trace ex) (dialer K ses) (Address ses) (Password ses) (Timeout ses)")
       (simp_all add: Dial_fresh [OF None] None Dial_connected)
next
  case (Some p)
  then show ?thesis by (simp add: Dial_connected)
qed

text \<open>
  Claim C7 in the example world on a connected executor and on a fresh one, and in the
  world that refuses connections.
\<close>

theorem Dial_one_connection_witness:
  "Dial exampleWorld exampleConsts exampleSession (freshExecutor\<lparr>client := Some RCON\<rparr>)
     = (None, freshExecutor\<lparr>client := Some RCON\<rparr>)
   \<and> connects (trace (snd (Dial exampleWorld exampleConsts exampleSession
         (snd (Dial exampleWorld exampleConsts exampleSession freshExecutor)))))
       = connects (trace freshExecutor) + 1
   \<and> client (snd (Dial refusingWorld exampleConsts exampleSession freshExecutor)) = None"
proof -
  have a: "client (freshExecutor\<lparr>client := Some RCON\<rparr>) \<noteq> None" by simp
  have b: "client freshExecutor = None" by (simp add: freshExecutor_def)
  have c: "fst (Dial refusingWorld exampleConsts exampleSession freshExecutor) \<noteq> None"
    by (simp add: example_defs Dial_def Let_def dialer_def)
  from Dial_one_connection [of "freshExecutor\<lparr>client := Some RCON\<rparr>" exampleWorld exampleConsts exampleSession]
    Dial_one_connection [of freshExecutor exampleWorld exampleConsts exampleSession]
    Dial_one_connection [of freshExecutor refusingWorld exampleConsts exampleSession]
  show ?thesis using a b c example_dial by blast
qed

subsection \<open>C8: the interactive loop\<close>

text \<open>
  Claim C8. In the loop of \<^verbatim>\<open>Interactive\<close>, an empty line only writes the prompt \<^verbatim>\<open>> \<close> and
  goes on; the line \<^verbatim>\<open>:q\<close> ends the loop with no error and does nothing; any other line
  is given to \<^verbatim>\<open>Execute\<close> as a batch of one command, whose error ends the loop and is
  returned, and after which the prompt is written otherwise. On the input made of an
  empty line and \<^verbatim>\<open>:q\<close>, with a session whose address, password and protocol type are set
  (the type being \<^verbatim>\<open>ProtocolRCON\<close> or \<^verbatim>\<open>ProtocolWebRCON\<close>) and a connect that succeeds,
  \<^verbatim>\<open>Interactive\<close> returns no error and adds to the trace of \<^verbatim>\<open>Dial\<close> two writes and nothing
  else: the greeting, which ends with the first prompt, and the second prompt. No
  command is sent.
\<close>

theorem interactiveLoop_lines:
  "interactiveLoop W K ses ([] # rest) ex = interactiveLoop W K ses rest (Fprint ''> '' ex)
   \<and> interactiveLoop W K ses (CommandQuit # rest) ex = (None, ex)
   \<and> (command \<noteq> [] \<and> command \<noteq> CommandQuit \<longrightarrow>
        interactiveLoop W K ses (command # rest) ex =
          (case Execute W K ses [command] ex of
             (Some e, ex1) \<Rightarrow> (Some e, ex1)
           | (None, ex1) \<Rightarrow> interactiveLoop W K ses rest (Fprint ''> '' ex1)))
   \<and> (Address ses \<noteq> [] \<and> Password ses \<noteq> [] \<and> Type ses \<noteq> []
        \<and> Type ses \<noteq> ProtocolTELNET K
        \<and> (Type ses = ProtocolRCON K \<or> Type ses = ProtocolWebRCON K)
        \<and> fst (Dial W K ses ex) = None \<longrightarrow>
        Interactive W K [[], CommandQuit] ses ex =
          (None, ses,
           (snd (Dial W K ses ex))\<lparr>trace := trace (snd (Dial W K ses ex)) @
              [Write (''Waiting commands for '' @ Address ses @ '' (or type :q to exit)''
                        @ [CHR 0x0A] @ ''> ''),
               Write ''> '']\<rparr>))"
proof -
  have quit: "CommandQuit \<noteq> []" by (simp add: CommandQuit_def)
  have scenario:
    "Interactive W K [[], CommandQuit] ses ex =
          (None, ses,
           (snd (Dial W K ses ex))\<lparr>trace := trace (snd (Dial W K ses ex)) @
              [Write (''Waiting commands for '' @ Address ses @ '' (or type :q to exit)''
                        @ [CHR 0x0A] @ ''> ''),
               Write ''> '']\<rparr>)"
    if h: "Address ses \<noteq> []" "Password ses \<noteq> []" "Type ses \<noteq> []"
          "Type ses \<noteq> ProtocolTELNET K"
          "Type ses = ProtocolRCON K \<or> Type ses = ProtocolWebRCON K"
          "fst (Dial W K ses ex) = None"
  proof -
    obtain ex1 where D: "Dial W K ses ex = (None, ex1)"
      using h(6) by (cases "Dial W K ses ex") auto
    have same: "ses\<lparr>Address := Address ses, Password := Password ses, Type := Type ses\<rparr> = ses"
      by simp
    have loop: "interactiveLoop W K ses [[], '':q''] ex2
                  = (None, Fprint ''> '' ex2)" for ex2
      by (simp add: CommandQuit_def)
    show ?thesis
      using h(1-5)
      by (simp add: Interactive_def prompt_def same D loop Fprint_def CommandQuit_def
               del: interactiveLoop.simps)
  qed
  show ?thesis using quit scenario by simp
qed

text \<open>
  Claim C8 in the example world: the line \<^verbatim>\<open>list\<close>, and the input made of an empty line
  and \<^verbatim>\<open>:q\<close>.
\<close>

theorem interactiveLoop_lines_witness:
  "interactiveLoop exampleWorld exampleConsts exampleSession [''list''] freshExecutor =
     (case Execute exampleWorld exampleConsts exampleSession [''list''] freshExecutor of
        (Some e, ex1) \<Rightarrow> (Some e, ex1)
      | (None, ex1) \<Rightarrow> interactiveLoop exampleWorld exampleConsts exampleSession [] (Fprint ''> '' ex1))
   \<and> Interactive exampleWorld exampleConsts [[], CommandQuit] exampleSession freshExecutor =
       (None, exampleSession,
        (snd (Dial exampleWorld exampleConsts exampleSession freshExecutor))
          \<lparr>trace := trace (snd (Dial exampleWorld exampleConsts exampleSession freshExecutor)) @
              [Write (''Waiting commands for '' @ Address exampleSession
                        @ '' (or type :q to exit)'' @ [CHR 0x0A] @ ''> ''),
               Write ''> '']\<rparr>)"
proof -
  have a: "''list'' \<noteq> [] \<and> ''list'' \<noteq> CommandQuit" by (simp add: CommandQuit_def)
  have b: "Address exampleSession \<noteq> [] \<and> Password exampleSession \<noteq> [] \<and> Type exampleSession \<noteq> []
        \<and> Type exampleSession \<noteq> ProtocolTELNET exampleConsts
        \<and> (Type exampleSession = ProtocolRCON exampleConsts \<or> Type exampleSession = ProtocolWebRCON exampleConsts)
        \<and> fst (Dial exampleWorld exampleConsts exampleSession freshExecutor) = None"
    using example_dial by (simp add: example_defs)
  from interactiveLoop_lines [of exampleWorld exampleConsts exampleSession "[]" freshExecutor "''list''"]
  show ?thesis using a b by blast
qed

subsection \<open>C9: stripping\<close>

text \<open>
  Claim C9. For every byte string \<open>s\<close>, the result of \<^verbatim>\<open>processColorCodes\<close> with
  \<^verbatim>\<open>stripColors = true\<close> holds no occurrence of the sentinel U+00A7, that is of the bytes
  \<^verbatim>\<open>C2 A7\<close>; and the result on the empty string is the empty string.
\<close>

theorem strip_removes_sentinel:
  "\<not> (\<exists>pre post. processColorCodes s True = pre @ [CHR 0xC2, CHR 0xA7] @ post)
   \<and> processColorCodes [] True = []"
proof -
  let ?g = "\<lambda>(i :: nat, c :: rune).
      let r = (if c = sentinel then - 1 else c) in if 0 \<le> r then EncodeRune r else []"
  have blocks: "b = [] \<or> wfBlock b" if "b \<in> set (map ?g (rangeString s 0))" for b
  proof -
    from that obtain i c where ic: "(i, c) \<in> set (rangeString s 0)" and b: "b = ?g (i, c)"
      by auto
    from rangeString_runes [OF ic] have c: "0 \<le> c" "c < 4294967296" by simp_all
    show ?thesis
    proof (cases "c = sentinel")
      case True
      then show ?thesis using b by simp
    next
      case False
      with c have "wfBlock (EncodeRune c)" by (intro EncodeRune_wf) simp_all
      then show ?thesis using b False c by simp
    qed
  qed
  have "\<not> hasSentinel (concat (map ?g (rangeString s 0)))"
    by (rule concat_no_sentinel) (rule blocks)
  then have "\<not> hasSentinel (processColorCodes s True)"
    by (simp add: processColorCodes_def strings_Map_def)
  moreover have "processColorCodes [] True = []"
    by (simp add: processColorCodes_def strings_Map_def rangeString.simps)
  ultimately show ?thesis by (simp add: hasSentinel_iff)
qed

subsection \<open>C10: a response of white space\<close>

text \<open>
  Claim C10. \<^verbatim>\<open>execute\<close> decides on the response as the provider returned it. Let the
  provider answer a command with the response \<open>resp\<close> and the error \<open>r\<close>. When \<open>resp\<close>
  is not empty and holds white space only, the first write after the command is sent is
  the reset escape and a newline, and the value given to the logger is the reset escape.
  When \<open>resp\<close> is the empty string, the only lines written are reports of errors, and
  the value given to the logger is the empty string. In both cases the logger is called
  once, unless the provider returned an error while skip-errors is disabled; then
  \<^verbatim>\<open>execute\<close> returns before it logs.
\<close>

theorem execute_whitespace_response:
  assumes "command \<noteq> []" and "client ex = Some p"
    and "exec_result W (sent (trace ex)) command = (resp, r)"
  shows "(resp \<noteq> [] \<and> allSpace resp \<longrightarrow>
            take 2 (drop (length (trace ex)) (trace (snd (execute W ses command ex))))
              = [Send command, Write (esc ''[0m'' @ [CHR 0x0A])]
          \<and> filter isLog (drop (length (trace ex)) (trace (snd (execute W ses command ex))))
              = (if r = None \<or> SkipErrors ses
                 then [LogWrite (Log ses) (Address ses) command (esc ''[0m'')] else []))
       \<and> (resp = [] \<longrightarrow>
            (\<forall>s. Write s \<in> set (drop (length (trace ex)) (trace (snd (execute W ses command ex))))
               \<longrightarrow> (\<exists>e. s = errorString (Wrapped ''execute'' e) @ [CHR 0x0A]
                        \<or> s = errorString (Wrapped ''log'' e) @ [CHR 0x0A]))
          \<and> filter isLog (drop (length (trace ex)) (trace (snd (execute W ses command ex))))
              = (if r = None \<or> SkipErrors ses
                 then [LogWrite (Log ses) (Address ses) command []] else []))"
proof -
  note T = execute_trace [OF assms, of ses]
  have space: "resp \<noteq> [] \<Longrightarrow> allSpace resp \<Longrightarrow> processColorCodes (TrimSpace resp) False = esc ''[0m''"
    by (simp add: TrimSpace_allSpace processColorCodes_empty)
  have white: "take 2 (drop (length (trace ex)) (trace (snd (execute W ses command ex))))
              = [Send command, Write (esc ''[0m'' @ [CHR 0x0A])]
          \<and> filter isLog (drop (length (trace ex)) (trace (snd (execute W ses command ex))))
              = (if r = None \<or> SkipErrors ses
                 then [LogWrite (Log ses) (Address ses) command (esc ''[0m'')] else [])"
    if "resp \<noteq> []" "allSpace resp"
    using that space
    by (cases r) (auto simp add: T Let_def logEvents_def split: option.splits simp del: errorString.simps)
  have empty: "(\<forall>s. Write s \<in> set (drop (length (trace ex)) (trace (snd (execute W ses command ex))))
               \<longrightarrow> (\<exists>e. s = errorString (Wrapped ''execute'' e) @ [CHR 0x0A]
                        \<or> s = errorString (Wrapped ''log'' e) @ [CHR 0x0A]))
          \<and> filter isLog (drop (length (trace ex)) (trace (snd (execute W ses command ex))))
              = (if r = None \<or> SkipErrors ses
                 then [LogWrite (Log ses) (Address ses) command []] else [])"
    if "resp = []"
    using that
    by (cases r) (auto simp add: T Let_def logEvents_def split: option.splits simp del: errorString.simps)
  show ?thesis using white empty by blast
qed

text \<open>
  Claim C10 in the example world, at the command \<^verbatim>\<open>blank\<close>, which the remote answers
  with one space, and at the command \<^verbatim>\<open>quiet\<close>, which it answers with the empty string.
\<close>

theorem execute_whitespace_response_witness:
  "take 2 (drop (length (trace (freshExecutor\<lparr>client := Some RCON\<rparr>)))
        (trace (snd (execute exampleWorld exampleSession ''blank'' (freshExecutor\<lparr>client := Some RCON\<rparr>)))))
     = [Send ''blank'', Write (esc ''[0m'' @ [CHR 0x0A])]
   \<and> filter isLog (drop (length (trace (freshExecutor\<lparr>client := Some RCON\<rparr>)))
        (trace (snd (execute exampleWorld exampleSession ''blank'' (freshExecutor\<lparr>client := Some RCON\<rparr>)))))
     = [LogWrite (Log exampleSession) (Address exampleSession) ''blank'' (esc ''[0m'')]
   \<and> filter isLog (drop (length (trace (freshExecutor\<lparr>client := Some RCON\<rparr>)))
        (trace (snd (execute exampleWorld exampleSession ''quiet'' (freshExecutor\<lparr>client := Some RCON\<rparr>)))))
     = [LogWrite (Log exampleSession) (Address exampleSession) ''quiet'' []]"
proof -
  let ?ex = "freshExecutor\<lparr>client := Some RCON\<rparr>"
  have c: "''blank'' \<noteq> []" "''quiet'' \<noteq> []" by simp_all
  have cl: "client ?ex = Some RCON" by simp
  have r1: "exec_result exampleWorld (sent (trace ?ex)) ''blank'' = ('' '', None)"
    by (simp add: example_defs)
  have r2: "exec_result exampleWorld (sent (trace ?ex)) ''quiet'' = ([], None)"
    by (simp add: example_defs)
  have w: "'' '' \<noteq> [] \<and> allSpace '' ''" using allSpace_blank by simp
  from execute_whitespace_response [OF c(1) cl r1, of exampleSession]
    execute_whitespace_response [OF c(2) cl r2, of exampleSession]
  show ?thesis using w by simp
qed

end
